theory Spec2Isabelle
  imports Main
begin

section \<open>JavaScript values and the built-ins the page relies on\<close>

text \<open>
  The payload handed to \<open>parseAgentResponse\<close> is typed \<open>any\<close>. It is modelled as
  \<open>undefined\<close> or a value of the kind \<open>JSON.parse\<close> produces: \<open>null\<close>, a boolean, a
  number, a string, an array, or a plain object given by its own properties in
  enumeration order (the first binding of a key is the property). Numbers are kept
  abstract (type \<open>'n\<close>): the page never computes with them, it only tests their
  truthiness and converts them to strings. A \<open>char\<close> stands for a UTF-16 code unit in
  the range 0..255.
\<close>

datatype 'n jsval =
    JUndefined
  | JNull
  | JBool bool
  | JNum 'n
  | JStr string
  | JArr "'n jsval list"
  | JObj "(string \<times> 'n jsval) list"

datatype exn = TypeError | SyntaxError

text \<open>
  The built-ins whose result depends on the number representation or on a full JSON
  grammar are parameters of the model:
  \<^item> \<open>Number_truthy n\<close>: \<open>ToBoolean\<close> of a number (false for \<open>0\<close>, \<open>-0\<close>, \<open>NaN\<close>);
  \<^item> \<open>Number_toString n\<close>: \<open>String(n)\<close>;
  \<^item> \<open>JSON_parse s\<close>: \<open>JSON.parse(s)\<close>, \<open>None\<close> when it throws \<open>SyntaxError\<close>;
  \<^item> \<open>JSON_stringify v\<close>: \<open>JSON.stringify(v, null, 2)\<close> for an array or object \<open>v\<close>.
\<close>

record 'n host =
  Number_truthy :: "'n \<Rightarrow> bool"
  Number_toString :: "'n \<Rightarrow> string"
  JSON_parse :: "string \<Rightarrow> 'n jsval option"
  JSON_stringify :: "'n jsval \<Rightarrow> string"

text \<open>\<open>ToBoolean\<close>: the test of \<open>if (v)\<close>, \<open>v && w\<close> and \<open>v || w\<close>.\<close>

fun truthy :: "'n host \<Rightarrow> 'n jsval \<Rightarrow> bool" where
  "truthy h JUndefined = False"
| "truthy h JNull = False"
| "truthy h (JBool b) = b"
| "truthy h (JNum n) = Number_truthy h n"
| "truthy h (JStr s) = (s \<noteq> [])"
| "truthy h (JArr xs) = True"
| "truthy h (JObj kvs) = True"

fun typeof :: "'n jsval \<Rightarrow> string" where
  "typeof JUndefined = ''undefined''"
| "typeof JNull = ''object''"
| "typeof (JBool b) = ''boolean''"
| "typeof (JNum n) = ''number''"
| "typeof (JStr s) = ''string''"
| "typeof (JArr xs) = ''object''"
| "typeof (JObj kvs) = ''object''"

text \<open>
  Property reads, for the names this page reads (\<open>data\<close>, \<open>response\<close>,
  \<open>follow_up_suggestions\<close>, \<open>summary\<close>, \<open>text\<close>, \<open>message\<close>, \<open>answer\<close>): none of them is
  defined by a built-in prototype, so on a string, number, boolean or array the read
  gives \<open>undefined\<close>. \<open>member v k\<close> is \<open>v.k\<close> and throws \<open>TypeError\<close> on \<open>null\<close> and
  \<open>undefined\<close>; \<open>member_opt v k\<close> is \<open>v?.k\<close>.
\<close>

fun own_property :: "'n jsval \<Rightarrow> string \<Rightarrow> 'n jsval" where
  "own_property (JObj kvs) k = (case map_of kvs k of Some v \<Rightarrow> v | None \<Rightarrow> JUndefined)"
| "own_property v k = JUndefined"

fun nullish :: "'n jsval \<Rightarrow> bool" where
  "nullish JUndefined = True"
| "nullish JNull = True"
| "nullish v = False"

definition member :: "'n jsval \<Rightarrow> string \<Rightarrow> exn + 'n jsval" where
  "member v k = (if nullish v then Inl TypeError else Inr (own_property v k))"

definition member_opt :: "'n jsval \<Rightarrow> string \<Rightarrow> 'n jsval" where
  "member_opt v k = (if nullish v then JUndefined else own_property v k)"

fun isArray :: "'n jsval \<Rightarrow> bool" where
  "isArray (JArr xs) = True"
| "isArray v = False"

definition bindE :: "exn + 'a \<Rightarrow> ('a \<Rightarrow> exn + 'b) \<Rightarrow> exn + 'b" where
  "bindE m f = (case m of Inl e \<Rightarrow> Inl e | Inr v \<Rightarrow> f v)"

fun join_with :: "string \<Rightarrow> string list \<Rightarrow> string" where
  "join_with sep [] = []"
| "join_with sep [s] = s"
| "join_with sep (s # t # ss) = s @ sep @ join_with sep (t # ss)"

text \<open>
  \<open>String(v)\<close>. On a plain object \<open>ToPrimitive\<close> looks up \<open>toString\<close> and then
  \<open>valueOf\<close>: with no own \<open>toString\<close> the inherited one answers \<open>[object Object]\<close>; an
  own \<open>toString\<close> property is a JSON value, hence not callable, and the inherited or
  own \<open>valueOf\<close> yields no primitive, so the conversion throws \<open>TypeError\<close>. On an
  array the inherited \<open>toString\<close> joins the elements with commas, \<open>null\<close> and
  \<open>undefined\<close> elements giving the empty string.
\<close>

fun js_String :: "'n host \<Rightarrow> 'n jsval \<Rightarrow> exn + string"
  and join_elements :: "'n host \<Rightarrow> 'n jsval list \<Rightarrow> exn + string list" where
  "js_String h JUndefined = Inr ''undefined''"
| "js_String h JNull = Inr ''null''"
| "js_String h (JBool b) = Inr (if b then ''true'' else ''false'')"
| "js_String h (JNum n) = Inr (Number_toString h n)"
| "js_String h (JStr s) = Inr s"
| "js_String h (JArr xs) =
     (case join_elements h xs of Inl e \<Rightarrow> Inl e | Inr ss \<Rightarrow> Inr (join_with '','' ss))"
| "js_String h (JObj kvs) =
     (case map_of kvs ''toString'' of
        None \<Rightarrow> Inr ''[object Object]''
      | Some f \<Rightarrow> Inl TypeError)"
| "join_elements h [] = Inr []"
| "join_elements h (x # xs) =
     (case (if nullish x then Inr [] else js_String h x) of
        Inl e \<Rightarrow> Inl e
      | Inr s \<Rightarrow> (case join_elements h xs of Inl e \<Rightarrow> Inl e | Inr ss \<Rightarrow> Inr (s # ss)))"

section \<open>Statements with mutable locals, early return and exceptions\<close>

text \<open>
  \<open>parseAgentResponse\<close> assigns to two locals, \<open>text\<close> and \<open>suggestions\<close>, returns
  \<open>{ text, suggestions }\<close> from several places and wraps everything in \<open>try\<close>/\<open>catch\<close>.
  A statement maps the locals to a completion: it ends normally, returns, or throws.
  A throw keeps the locals as they are at that point, since the handler reads them.
  The local \<open>text\<close> is the field \<open>text'\<close>. Both locals hold JavaScript values: that
  \<open>text\<close> always ends as a string is a property of the code, proved below.
\<close>

record 'n parsed =
  text' :: "'n jsval"
  suggestions :: "'n jsval"

datatype 'n completion =
    Normal "'n parsed"
  | Return "'n parsed"
  | Throw exn "'n parsed"

type_synonym 'n stmt = "'n parsed \<Rightarrow> 'n completion"

definition seq :: "'n stmt \<Rightarrow> 'n stmt \<Rightarrow> 'n stmt" where
  "seq s1 s2 l =
     (case s1 l of Normal l' \<Rightarrow> s2 l' | Return r \<Rightarrow> Return r | Throw e l' \<Rightarrow> Throw e l')"

definition skip :: "'n stmt" where
  "skip l = Normal l"

definition if_then_else :: "exn + bool \<Rightarrow> 'n stmt \<Rightarrow> 'n stmt \<Rightarrow> 'n stmt" where
  "if_then_else c s1 s2 l =
     (case c of Inl e \<Rightarrow> Throw e l | Inr b \<Rightarrow> (if b then s1 l else s2 l))"

definition assign_text :: "exn + 'n jsval \<Rightarrow> 'n stmt" where
  "assign_text e l = (case e of Inl x \<Rightarrow> Throw x l | Inr v \<Rightarrow> Normal (l\<lparr>text' := v\<rparr>))"

definition assign_suggestions :: "exn + 'n jsval \<Rightarrow> 'n stmt" where
  "assign_suggestions e l =
     (case e of Inl x \<Rightarrow> Throw x l | Inr v \<Rightarrow> Normal (l\<lparr>suggestions := v\<rparr>))"

definition return_locals :: "'n stmt" where
  "return_locals l = Return l"

definition try_catch :: "'n stmt \<Rightarrow> 'n stmt \<Rightarrow> 'n stmt" where
  "try_catch body handler l =
     (case body l of Throw e l' \<Rightarrow> handler l' | Normal l' \<Rightarrow> Normal l' | Return r \<Rightarrow> Return r)"

text \<open>\<open>a && b\<close> on conditions: \<open>b\<close> is evaluated only when \<open>a\<close> is truthy.\<close>

definition and_then :: "exn + bool \<Rightarrow> exn + bool \<Rightarrow> exn + bool" where
  "and_then a b = bindE a (\<lambda>x. if x then b else Inr False)"

definition String_of :: "'n host \<Rightarrow> exn + 'n jsval \<Rightarrow> exn + 'n jsval" where
  "String_of h e = bindE e (\<lambda>v. bindE (js_String h v) (\<lambda>s. Inr (JStr s)))"

section \<open>The response normalizer: \<open>parseAgentResponse\<close>\<close>

text \<open>Lines 106-113: the primary path \<open>result.data.response\<close>.\<close>

definition primary_path :: "'n host \<Rightarrow> 'n jsval \<Rightarrow> 'n stmt" where
  "primary_path h result =
     if_then_else (Inr (truthy h (member_opt (member_opt result ''data'') ''response'')))
       (seq (assign_text
               (String_of h (bindE (member result ''data'') (\<lambda>d. member d ''response''))))
       (seq (if_then_else
               (Inr (isArray (member_opt (member_opt result ''data'') ''follow_up_suggestions'')))
               (assign_suggestions
                  (bindE (member result ''data'') (\<lambda>d. member d ''follow_up_suggestions'')))
               skip)
            return_locals))
       skip"

text \<open>Lines 115-122: the flat structure, \<open>result.response\<close> a string.\<close>

definition flat_path :: "'n host \<Rightarrow> 'n jsval \<Rightarrow> 'n stmt" where
  "flat_path h result =
     if_then_else
       (and_then (Inr (truthy h (member_opt result ''response'')))
          (bindE (member result ''response'') (\<lambda>r. Inr (typeof r = ''string''))))
       (seq (assign_text (member result ''response''))
       (seq (if_then_else (Inr (isArray (member_opt result ''follow_up_suggestions'')))
               (assign_suggestions (member result ''follow_up_suggestions''))
               skip)
            return_locals))
       skip"

text \<open>
  Lines 124-143: a string payload is parsed as JSON inside an inner \<open>try\<close>; its bare
  \<open>catch\<close> handles whatever the block throws.
\<close>

definition JSON_parse_or_throw :: "'n host \<Rightarrow> 'n jsval \<Rightarrow> exn + 'n jsval" where
  "JSON_parse_or_throw h v =
     bindE (js_String h v)
       (\<lambda>s. case JSON_parse h s of None \<Rightarrow> Inl SyntaxError | Some p \<Rightarrow> Inr p)"

definition parsed_paths :: "'n host \<Rightarrow> 'n jsval \<Rightarrow> 'n stmt" where
  "parsed_paths h p =
     seq (if_then_else (Inr (truthy h (member_opt (member_opt p ''data'') ''response'')))
            (seq (assign_text
                    (String_of h (bindE (member p ''data'') (\<lambda>d. member d ''response''))))
            (seq (if_then_else
                    (Inr (isArray (member_opt (member_opt p ''data'') ''follow_up_suggestions'')))
                    (assign_suggestions
                       (bindE (member p ''data'') (\<lambda>d. member d ''follow_up_suggestions'')))
                    skip)
                 return_locals))
            skip)
         (if_then_else (Inr (truthy h (member_opt p ''response'')))
            (seq (assign_text (String_of h (member p ''response''))) return_locals)
            skip)"

definition parse_attempt :: "'n host \<Rightarrow> 'n jsval \<Rightarrow> 'n stmt" where
  "parse_attempt h result l =
     (case JSON_parse_or_throw h result of
        Inl e \<Rightarrow> Throw e l
      | Inr p \<Rightarrow> parsed_paths h p l)"

definition string_path :: "'n host \<Rightarrow> 'n jsval \<Rightarrow> 'n stmt" where
  "string_path h result =
     if_then_else (Inr (typeof result = ''string''))
       (try_catch (parse_attempt h result) (seq (assign_text (Inr result)) return_locals))
       skip"

text \<open>Lines 145-154: the first truthy field among the recognizable ones, else the payload itself.\<close>

definition fallback :: "'n host \<Rightarrow> 'n jsval \<Rightarrow> 'n stmt" where
  "fallback h result =
     if_then_else (Inr (truthy h (member_opt result ''summary'')))
       (assign_text (String_of h (member result ''summary'')))
    (if_then_else (Inr (truthy h (member_opt result ''text'')))
       (assign_text (String_of h (member result ''text'')))
    (if_then_else (Inr (truthy h (member_opt result ''message'')))
       (assign_text (String_of h (member result ''message'')))
    (if_then_else (Inr (truthy h (member_opt result ''answer'')))
       (assign_text (String_of h (member result ''answer'')))
    (if_then_else (Inr (\<not> nullish result))
       (assign_text
          (if typeof result = ''object'' then Inr (JStr (JSON_stringify h result))
           else String_of h (Inr result)))
       (assign_text (Inr (JStr ''No response received.'')))))))"

definition try_block :: "'n host \<Rightarrow> 'n jsval \<Rightarrow> 'n stmt" where
  "try_block h result =
     seq (primary_path h result)
    (seq (flat_path h result)
    (seq (string_path h result)
         (fallback h result)))"

definition initial_locals :: "'n parsed" where
  "initial_locals = \<lparr>text' = JStr [], suggestions = JArr []\<rparr>"

text \<open>
  The whole function. \<open>Inl e\<close> would be an exception leaving \<open>parseAgentResponse\<close>;
  a normal end of the \<open>try\<close> statement reaches the final \<open>return { text, suggestions }\<close>.
\<close>

definition parseAgentResponse :: "'n host \<Rightarrow> 'n jsval \<Rightarrow> exn + 'n parsed" where
  "parseAgentResponse h result =
     (case try_catch (try_block h result)
             (assign_text (Inr (JStr ''Unable to parse response.''))) initial_locals of
        Normal l \<Rightarrow> Inr l
      | Return r \<Rightarrow> Inr r
      | Throw e l \<Rightarrow> Inl e)"

text \<open>
  Names for what the statements below talk about: the value of
  \<open>result?.data?.response\<close>, the suggestions kept from a field (the field itself
  when it is an array), and the first truthy value among the recognizable fields.
\<close>

definition nested_response :: "'n jsval \<Rightarrow> 'n jsval" where
  "nested_response v = member_opt (member_opt v ''data'') ''response''"

definition array_or_empty :: "'n jsval \<Rightarrow> 'n jsval" where
  "array_or_empty v = (if isArray v then v else JArr [])"

definition recognizable_field :: "'n host \<Rightarrow> 'n jsval \<Rightarrow> 'n jsval option" where
  "recognizable_field h v =
     find (truthy h) (map (member_opt v) [''summary'', ''text'', ''message'', ''answer''])"

section \<open>The markup renderer: \<open>renderInline\<close> and \<open>MarkdownRenderer\<close>\<close>

text \<open>
  Character classes of the regular expressions and of \<open>trim\<close>, on code units below
  256: \<open>\s\<close> and \<open>trim\<close> use white space together with the line terminators; \<open>.\<close>
  matches everything but a line terminator; \<open>\d\<close> is an ASCII digit.
\<close>

definition is_line_terminator :: "char \<Rightarrow> bool" where
  "is_line_terminator c = (c = CHR 0x0A \<or> c = CHR 0x0D)"

definition is_white_space :: "char \<Rightarrow> bool" where
  "is_white_space c =
     (c = CHR 0x09 \<or> c = CHR 0x0A \<or> c = CHR 0x0B \<or> c = CHR 0x0C \<or> c = CHR 0x0D \<or>
      c = CHR 0x20 \<or> c = CHR 0xA0)"

definition is_digit :: "char \<Rightarrow> bool" where
  "is_digit c = (c \<in> set ''0123456789'')"

definition trim :: "string \<Rightarrow> string" where
  "trim s = rev (dropWhile is_white_space (rev (dropWhile is_white_space s)))"

definition startsWith :: "string \<Rightarrow> string \<Rightarrow> bool" where
  "startsWith s p = (take (length p) s = p)"

text \<open>\<open>s.slice(a, b)\<close> and \<open>s.slice(a)\<close> for indices within the string.\<close>

definition slice :: "string \<Rightarrow> nat \<Rightarrow> nat \<Rightarrow> string" where
  "slice s a b = take (b - a) (drop a s)"

definition slice_from :: "string \<Rightarrow> nat \<Rightarrow> string" where
  "slice_from s a = drop a s"

text \<open>\<open>s.split('\n')\<close>: the empty string gives one empty line.\<close>

fun split_lines :: "string \<Rightarrow> string list" where
  "split_lines [] = [[]]"
| "split_lines (c # cs) =
     (if c = CHR 0x0A then [] # split_lines cs
      else (case split_lines cs of l # ls \<Rightarrow> (c # l) # ls | [] \<Rightarrow> [[c]]))"

datatype span = Plain string | Strong string | Code string

text \<open>
  The value \<open>renderInline\<close> returns: the array \<open>parts\<close> when it is not empty, else the
  string \<open>text\<close> itself.
\<close>

datatype inline = Parts "span list" | Text string

text \<open>
  The regular expression of line 164, with the \<open>g\<close> flag:
  \<^verbatim>\<open>/(\*\*(.+?)\*\*)|(`(.+?)`)/g\<close>.
  \<open>lazy_until close acc s\<close> is the lazy group \<open>(.+?)\<close> followed by the literal
  \<open>close\<close>, with \<open>acc\<close> already consumed by the group: the group takes one more
  character, which must not be a line terminator, and stops as soon as \<open>close\<close>
  follows. The result is the captured text.
\<close>

fun lazy_until :: "string \<Rightarrow> string \<Rightarrow> string \<Rightarrow> string option" where
  "lazy_until close acc [] = None"
| "lazy_until close acc (c # cs) =
     (if is_line_terminator c then None
      else if startsWith cs close then Some (acc @ [c])
      else lazy_until close (acc @ [c]) cs)"

record regex_match =
  index :: nat
  group2 :: "string option"
  group4 :: "string option"
  lastIndex :: nat

text \<open>
  A match starting at position \<open>i\<close>, where \<open>s\<close> is the text from \<open>i\<close> on: the first
  alternative is tried first, the second only when the first fails at \<open>i\<close>.
\<close>

definition match_at :: "nat \<Rightarrow> string \<Rightarrow> regex_match option" where
  "match_at i s =
     (case (if startsWith s ''**'' then lazy_until ''**'' [] (drop 2 s) else None) of
        Some x \<Rightarrow>
          Some \<lparr>index = i, group2 = Some x, group4 = None, lastIndex = i + (length x + 4)\<rparr>
      | None \<Rightarrow>
          (case (if startsWith s ''`'' then lazy_until ''`'' [] (drop 1 s) else None) of
             Some x \<Rightarrow>
               Some \<lparr>index = i, group2 = None, group4 = Some x, lastIndex = i + (length x + 2)\<rparr>
           | None \<Rightarrow> None))"

fun scan :: "nat \<Rightarrow> string \<Rightarrow> regex_match option" where
  "scan i [] = None"
| "scan i (c # cs) =
     (case match_at i (c # cs) of Some m \<Rightarrow> Some m | None \<Rightarrow> scan (Suc i) cs)"

text \<open>\<open>regex.exec(text)\<close> with \<open>regex.lastIndex = i\<close>: the leftmost match at or after \<open>i\<close>.\<close>

definition regex_exec :: "string \<Rightarrow> nat \<Rightarrow> regex_match option" where
  "regex_exec text i = scan i (drop i text)"

definition group_truthy :: "string option \<Rightarrow> bool" where
  "group_truthy g = (case g of None \<Rightarrow> False | Some x \<Rightarrow> x \<noteq> [])"

definition group_text :: "string option \<Rightarrow> string" where
  "group_text g = (case g of None \<Rightarrow> [] | Some x \<Rightarrow> x)"

text \<open>The body of the \<open>while\<close> loop, lines 169-179, on the array \<open>parts\<close>.\<close>

definition push_match :: "string \<Rightarrow> nat \<Rightarrow> regex_match \<Rightarrow> span list \<Rightarrow> span list" where
  "push_match text last_index m parts =
     (let parts1 = (if index m > last_index then parts @ [Plain (slice text last_index (index m))] else parts)
      in if group_truthy (group2 m) then parts1 @ [Strong (group_text (group2 m))]
         else if group_truthy (group4 m) then parts1 @ [Code (group_text (group4 m))]
         else parts1)"

function renderInline_loop :: "string \<Rightarrow> nat \<Rightarrow> span list \<Rightarrow> nat \<times> span list" where
  "renderInline_loop text last_index parts =
     (case regex_exec text last_index of
        None \<Rightarrow> (last_index, parts)
      | Some m \<Rightarrow> renderInline_loop text (lastIndex m) (push_match text last_index m parts))"
  by pat_completeness auto
termination
proof (relation "measure (\<lambda>(text, last_index, parts). length text - last_index)")
  show "wf (measure (\<lambda>(text, last_index, parts). length text - last_index))"
    by simp
next
  fix t :: string and i0 :: nat and parts :: "span list" and m :: regex_match
  assume exec: "regex_exec t i0 = Some m"
  have at: "i < lastIndex m'" if "match_at i s = Some m'" for i s m'
    using that by (auto simp: match_at_def split: option.splits if_splits)
  have sc: "i < lastIndex m' \<and> s \<noteq> []" if "scan i s = Some m'" for i s m'
    using that
  proof (induction s arbitrary: i)
    case Nil
    then show ?case by simp
  next
    case (Cons c cs)
    show ?case
    proof (cases "match_at i (c # cs)")
      case None
      with Cons.prems have "scan (Suc i) cs = Some m'" by simp
      from Cons.IH[OF this] show ?thesis by simp
    next
      case (Some m0)
      with Cons.prems have "m0 = m'" by simp
      with Some at show ?thesis by simp
    qed
  qed
  from exec have "i0 < lastIndex m \<and> drop i0 t \<noteq> []"
    unfolding regex_exec_def by (rule sc)
  then show "((t, lastIndex m, push_match t i0 m parts), (t, i0, parts))
      \<in> measure (\<lambda>(text, last_index, parts). length text - last_index)"
    by (simp add: diff_less_mono2)
qed

definition renderInline :: "string \<Rightarrow> inline" where
  "renderInline text =
     (case renderInline_loop text 0 [] of
        (last_index, parts) \<Rightarrow>
          (let parts' = (if last_index < length text then parts @ [Plain (slice_from text last_index)]
                         else parts)
           in if length parts' > 0 then Parts parts' else Text text))"

datatype block =
    Blank
  | Heading nat inline
  | Bullet inline
  | Numbered string inline
  | Paragraph inline

text \<open>
  Line 218: \<^verbatim>\<open>trimmed.match(/^(\d+)\.\s(.+)/)\<close>. The greedy \<open>\d+\<close> takes every
  leading digit (with fewer, a digit would stand where the dot must), \<open>\s\<close> takes one
  white-space character and the greedy \<open>(.+)\<close> takes everything up to the first line
  terminator, at least one character. The result is the pair of the two groups.
\<close>

definition num_match :: "string \<Rightarrow> (string \<times> string) option" where
  "num_match s =
     (let ds = takeWhile is_digit s in
      if ds = [] then None
      else (case dropWhile is_digit s of
              c1 # c2 # rest \<Rightarrow>
                (let content = takeWhile (\<lambda>c. \<not> is_line_terminator c) rest in
                 if c1 = CHR ''.'' \<and> is_white_space c2 \<and> content \<noteq> []
                 then Some (ds, content) else None)
            | _ \<Rightarrow> None))"

text \<open>The callback of \<open>lines.map\<close>, lines 194-229: one block per line.\<close>

definition render_line :: "string \<Rightarrow> block" where
  "render_line line =
     (let trimmed = trim line in
      if trimmed = [] then Blank
      else if startsWith trimmed ''### '' then Heading 3 (renderInline (slice_from trimmed 4))
      else if startsWith trimmed ''## '' then Heading 2 (renderInline (slice_from trimmed 3))
      else if startsWith trimmed ''# '' then Heading 1 (renderInline (slice_from trimmed 2))
      else if startsWith trimmed ''- '' \<or> startsWith trimmed ''* ''
        then Bullet (renderInline (slice_from trimmed 2))
      else (case num_match trimmed of
              Some (n, rest) \<Rightarrow> Numbered (n @ ''.'') (renderInline rest)
            | None \<Rightarrow> Paragraph (renderInline trimmed)))"

text \<open>\<open>content ?? ''\<close>: \<open>None\<close> stands for a \<open>null\<close> or \<open>undefined\<close> property.\<close>

definition MarkdownRenderer :: "string option \<Rightarrow> block list" where
  "MarkdownRenderer content =
     map render_line (split_lines (case content of None \<Rightarrow> [] | Some c \<Rightarrow> c))"

text \<open>
  The forms of a trimmed line. \<open>numbered_line t ds rest\<close>: \<open>t\<close> is the digits \<open>ds\<close>, a
  dot, one white-space character and the non-empty text \<open>rest\<close>.
  \<open>classify_as_stated\<close> is the classification with exactly one space after the dot
  and everything after it as the item's text.
\<close>

definition numbered_as_stated :: "string \<Rightarrow> (string \<times> string) option" where
  "numbered_as_stated s =
     (let ds = takeWhile is_digit s in
      case dropWhile is_digit s of
        c1 # c2 # rest \<Rightarrow>
          if ds \<noteq> [] \<and> c1 = CHR ''.'' \<and> c2 = CHR '' '' \<and> rest \<noteq> [] then Some (ds, rest) else None
      | _ \<Rightarrow> None)"

definition classify_as_stated :: "string \<Rightarrow> block" where
  "classify_as_stated line =
     (let t = trim line in
      if t = [] then Blank
      else if startsWith t ''### '' then Heading 3 (renderInline (drop 4 t))
      else if startsWith t ''## '' then Heading 2 (renderInline (drop 3 t))
      else if startsWith t ''# '' then Heading 1 (renderInline (drop 2 t))
      else if startsWith t ''- '' \<or> startsWith t ''* '' then Bullet (renderInline (drop 2 t))
      else (case numbered_as_stated t of
              Some (ds, rest) \<Rightarrow> Numbered (ds @ ''.'') (renderInline rest)
            | None \<Rightarrow> Paragraph (renderInline t)))"

definition heading_or_bullet :: "string \<Rightarrow> bool" where
  "heading_or_bullet t =
     (startsWith t ''### '' \<or> startsWith t ''## '' \<or> startsWith t ''# '' \<or>
      startsWith t ''- '' \<or> startsWith t ''* '')"

definition numbered_line :: "string \<Rightarrow> string \<Rightarrow> string \<Rightarrow> bool" where
  "numbered_line t ds rest =
     (\<exists>w. t = ds @ ''.'' @ [w] @ rest \<and> ds \<noteq> [] \<and> list_all is_digit ds \<and>
          is_white_space w \<and> rest \<noteq> [])"

text \<open>
  What the statements about the renderer talk about. \<open>span_source\<close> is the source text
  of a span, with its markers. \<open>bold_here s x\<close> and \<open>code_here s x\<close> say that \<open>s\<close>
  starts with a marker pattern around \<open>x\<close>, where \<open>x\<close> is not empty and holds no line
  terminator; \<open>span_here s sp\<close> says that \<open>sp\<close> is the shortest such pattern at the
  start of \<open>s\<close>; \<open>marker_at s j\<close> says that a pattern starts at position \<open>j\<close> of \<open>s\<close>.
  \<open>inline_spec t ss\<close> describes the scan from left to right: either no position of
  \<open>t\<close> starts a pattern and \<open>t\<close> is one plain span (none when \<open>t\<close> is empty), or the
  first span is the shortest pattern at the earliest position where one starts, the
  text before it is a plain span, and the text after it is scanned in the same way.
\<close>

fun span_source :: "span \<Rightarrow> string" where
  "span_source (Plain p) = p"
| "span_source (Strong x) = ''**'' @ x @ ''**''"
| "span_source (Code x) = ''`'' @ x @ ''`''"

definition bold_here :: "string \<Rightarrow> string \<Rightarrow> bool" where
  "bold_here s x =
     (x \<noteq> [] \<and> (\<forall>c\<in>set x. \<not> is_line_terminator c) \<and> startsWith s (''**'' @ x @ ''**''))"

definition code_here :: "string \<Rightarrow> string \<Rightarrow> bool" where
  "code_here s x =
     (x \<noteq> [] \<and> (\<forall>c\<in>set x. \<not> is_line_terminator c) \<and> startsWith s (''`'' @ x @ ''`''))"

fun span_here :: "string \<Rightarrow> span \<Rightarrow> bool" where
  "span_here s (Strong x) = (bold_here s x \<and> (\<forall>y. bold_here s y \<longrightarrow> length x \<le> length y))"
| "span_here s (Code x) = (code_here s x \<and> (\<forall>y. code_here s y \<longrightarrow> length x \<le> length y))"
| "span_here s (Plain p) = False"

definition marker_at :: "string \<Rightarrow> nat \<Rightarrow> bool" where
  "marker_at s j = (\<exists>x. bold_here (drop j s) x \<or> code_here (drop j s) x)"

inductive inline_spec :: "string \<Rightarrow> span list \<Rightarrow> bool" where
  plain_only: "\<forall>j. \<not> marker_at t j \<Longrightarrow> inline_spec t (if t = [] then [] else [Plain t])"
| marker: "\<forall>j<length pre. \<not> marker_at (pre @ span_source s @ rest) j \<Longrightarrow>
     span_here (span_source s @ rest) s \<Longrightarrow> inline_spec rest ss \<Longrightarrow>
     inline_spec (pre @ span_source s @ rest) ((if pre = [] then [] else [Plain pre]) @ s # ss)"

fun spans_of :: "inline \<Rightarrow> span list" where
  "spans_of (Parts ps) = ps"
| "spans_of (Text s) = (if s = [] then [] else [Plain s])"

text \<open>
  Two notions for the proofs: \<open>lazy_ok close s x\<close> says that \<open>s\<close> starts with the
  non-empty, terminator-free \<open>x\<close> followed by \<open>close\<close>; \<open>groups_of sp\<close> gives the groups
  2 and 4 of the match that produces the span \<open>sp\<close>.
\<close>

definition lazy_ok :: "string \<Rightarrow> string \<Rightarrow> string \<Rightarrow> bool" where
  "lazy_ok close s x = (x \<noteq> [] \<and> (\<forall>c\<in>set x. \<not> is_line_terminator c) \<and> startsWith s (x @ close))"

definition groups_of :: "span \<Rightarrow> string option \<times> string option" where
  "groups_of sp = (case sp of Strong x \<Rightarrow> (Some x, None) | Code x \<Rightarrow> (None, Some x)
     | Plain p \<Rightarrow> (None, None))"

section \<open>The chat turn: \<open>sendMessage\<close>\<close>

text \<open>The decimal string of a counter, as the template literal of \<open>getNextId\<close> prints it.\<close>

fun digits_of :: "nat \<Rightarrow> nat \<Rightarrow> string" where
  "digits_of 0 n = []"
| "digits_of (Suc fuel) n =
     (if n < 10 then [char_of (48 + n)]
      else digits_of fuel (n div 10) @ [char_of (48 + n mod 10)])"

definition string_of_nat :: "nat \<Rightarrow> string" where
  "string_of_nat n = digits_of (Suc n) n"

definition string_of_int :: "int \<Rightarrow> string" where
  "string_of_int i = (if i < 0 then ''-'' @ string_of_nat (nat (- i)) else string_of_nat (nat i))"

datatype role = User | Assistant

record 'n ChatMessage =
  msg_id :: string
  role :: role
  content :: "'n jsval"
  timestamp :: string
  followUpSuggestions :: "'n jsval option"
  isError :: "bool option"

definition AGENT_ID :: string where
  "AGENT_ID = ''698b28fbd6b1284eb616bf79''"

text \<open>
  The state of the \<open>Home\<close> component: its \<open>useState\<close> cells and the id counter ref.
  A setter writes a cell; the constants \<open>isLoading\<close> and \<open>messages\<close> that the handlers
  read are those of the render that built the handlers (\<open>sendMessage\<close> is rebuilt by
  \<open>useCallback\<close> when \<open>isLoading\<close> differs, line 415). The fields \<open>rendered_isLoading\<close>
  and \<open>rendered_messages\<close> hold these constants; \<open>render\<close> is a run of the component
  function, which reads the cells anew. Two ghost fields record the calls of
  \<open>callAIAgent\<close>: \<open>agent_calls\<close> lists the arguments of every call made, \<open>in_flight\<close>
  counts the calls not yet settled.
\<close>

record 'n page =
  messages :: "'n ChatMessage list"
  inputValue :: string
  isLoading :: bool
  showNewChatConfirm :: bool
  activeAgentId :: "string option"
  idCounter :: nat
  rendered_isLoading :: bool
  rendered_messages :: "'n ChatMessage list"
  agent_calls :: "(string \<times> string) list"
  in_flight :: nat

definition initial_page :: "'n page" where
  "initial_page =
     \<lparr>messages = [], inputValue = [], isLoading = False, showNewChatConfirm = False,
      activeAgentId = None, idCounter = 0, rendered_isLoading = False,
      rendered_messages = [], agent_calls = [], in_flight = 0\<rparr>"

definition render :: "'n page \<Rightarrow> 'n page" where
  "render st = st\<lparr>rendered_isLoading := isLoading st, rendered_messages := messages st\<rparr>"

definition getNextId :: "'n page \<Rightarrow> string \<times> 'n page" where
  "getNextId st =
     (''msg-'' @ string_of_nat (idCounter st + 1), st\<lparr>idCounter := idCounter st + 1\<rparr>)"

definition setMessages_append :: "'n ChatMessage \<Rightarrow> 'n page \<Rightarrow> 'n page" where
  "setMessages_append m st = st\<lparr>messages := messages st @ [m]\<rparr>"

text \<open>\<open>a || b\<close>.\<close>

definition js_or :: "'n host \<Rightarrow> 'n jsval \<Rightarrow> 'n jsval \<Rightarrow> 'n jsval" where
  "js_or h a b = (if truthy h a then a else b)"

text \<open>
  Lines 355-377: \<open>sendMessage\<close> up to the \<open>await\<close>. The guard of line 356 reads the
  constant \<open>isLoading\<close> of the render that built the callback, not the cell that
  \<open>setIsLoading\<close> writes. \<open>ts\<close> is what \<open>getTimestamp()\<close> returns. The call
  \<open>callAIAgent(trimmed, AGENT_ID)\<close> is recorded in the ghost fields.
\<close>

definition sendMessage_begin :: "string \<Rightarrow> string \<Rightarrow> 'n page \<Rightarrow> 'n page" where
  "sendMessage_begin ts input st =
     (let trimmed = trim input in
      if trimmed = [] \<or> rendered_isLoading st then st
      else (case getNextId st of
              (i, st1) \<Rightarrow>
                (setMessages_append
                   \<lparr>msg_id = i, role = User, content = JStr trimmed, timestamp = ts,
                    followUpSuggestions = None, isError = None\<rparr> st1)
                \<lparr>inputValue := [], isLoading := True, activeAgentId := Some AGENT_ID,
                 agent_calls := agent_calls st1 @ [(trimmed, AGENT_ID)],
                 in_flight := Suc (in_flight st1)\<rparr>))"

text \<open>How the awaited call settles: it resolves to a value or it rejects.\<close>

datatype 'n outcome = Resolved "'n jsval" | Rejected

definition network_error :: "string \<Rightarrow> 'n page \<Rightarrow> 'n page" where
  "network_error ts st =
     (case getNextId st of
        (i, st1) \<Rightarrow>
          setMessages_append
            \<lparr>msg_id = i, role = Assistant,
             content = JStr ''A network error occurred. Please check your connection and try again.'',
             timestamp = ts, followUpSuggestions = None, isError = Some True\<rparr> st1)"

text \<open>
  Lines 377-413: \<open>sendMessage\<close> after the \<open>await\<close>. \<open>responseTs\<close> and \<open>catchTs\<close> are
  what \<open>getTimestamp()\<close> returns in the \<open>try\<close> block and in the \<open>catch\<close> block. An
  exception of \<open>parseAgentResponse\<close> would reach the \<open>catch\<close> block like a rejection.
\<close>

definition sendMessage_try :: "'n host \<Rightarrow> 'n outcome \<Rightarrow> string \<Rightarrow> string \<Rightarrow> 'n page \<Rightarrow> 'n page" where
  "sendMessage_try h settled responseTs catchTs st =
     (case settled of
        Rejected \<Rightarrow> network_error catchTs st
      | Resolved result \<Rightarrow>
          (if truthy h (member_opt result ''success'') then
             (case parseAgentResponse h (member_opt (member_opt result ''response'') ''result'') of
                Inl e \<Rightarrow> network_error catchTs st
              | Inr parsed \<Rightarrow>
                  (case getNextId st of
                     (i, st1) \<Rightarrow>
                       setMessages_append
                         \<lparr>msg_id = i, role = Assistant,
                          content = js_or h (text' parsed)
                            (JStr ''I received your message but have no response to display.''),
                          timestamp = responseTs,
                          followUpSuggestions = Some (suggestions parsed),
                          isError = None\<rparr> st1))
           else
             (case getNextId st of
                (i, st1) \<Rightarrow>
                  setMessages_append
                    \<lparr>msg_id = i, role = Assistant,
                     content = js_or h (member_opt result ''error'')
                       (js_or h (member_opt (member_opt result ''response'') ''message'')
                          (JStr ''Something went wrong. Please try again.'')),
                     timestamp = responseTs, followUpSuggestions = None,
                     isError = Some True\<rparr> st1)))"

definition sendMessage_resume :: "'n host \<Rightarrow> 'n outcome \<Rightarrow> string \<Rightarrow> string \<Rightarrow> 'n page \<Rightarrow> 'n page" where
  "sendMessage_resume h settled responseTs catchTs st =
     (sendMessage_try h settled responseTs catchTs st)
       \<lparr>isLoading := False, activeAgentId := None, in_flight := in_flight st - 1\<rparr>"






text \<open>
  \<open>agent_payload result\<close> is \<open>result?.response?.result\<close>, what \<open>sendMessage\<close> hands to
  the normalizer.
\<close>

definition agent_payload :: "'n jsval \<Rightarrow> 'n jsval" where
  "agent_payload result = member_opt (member_opt result ''response'') ''result''"

section \<open>An example host\<close>

text \<open>
  A host over the integers, used for the closed instances below. An integer is
  truthy when it is not zero, and its string is its decimal numeral. \<open>JSON.parse\<close>
  and \<open>JSON.stringify\<close> are tables of what the built-ins answer on the inputs the
  instances use: four JSON texts are listed with the values they parse to, and the
  two other strings the instances parse, \<open>plain text, not json\<close> and the empty
  string, are not JSON, so \<open>JSON.parse\<close> throws on them; one object is listed with
  its serialization at indent 2. No instance reads the tables anywhere else.
\<close>

definition toString_payload :: string where
  "toString_payload = ''{\"data\":{\"response\":{\"toString\":1}}}''"

definition demo_parse :: "string \<Rightarrow> int jsval option" where
  "demo_parse s =
     (if s = ''{\"data\":{\"response\":\"hi\"}}''
        then Some (JObj [(''data'', JObj [(''response'', JStr ''hi'')])])
      else if s = ''{\"response\":5}''
        then Some (JObj [(''response'', JNum 5)])
      else if s = ''{\"answer\":\"yes\"}''
        then Some (JObj [(''answer'', JStr ''yes'')])
      else if s = toString_payload
        then Some (JObj [(''data'', JObj [(''response'', JObj [(''toString'', JNum 1)])])])
      else None)"

definition demo_stringify :: "int jsval \<Rightarrow> string" where
  "demo_stringify v =
     (if v = JObj [(''status'', JStr ''ok'')]
        then ''{'' @ [CHR 0x0A] @ ''  \"status\": \"ok\"'' @ [CHR 0x0A] @ ''}''
      else [])"

definition demo_host :: "int host" where
  "demo_host =
     \<lparr>Number_truthy = (\<lambda>n. n \<noteq> 0), Number_toString = string_of_int,
      JSON_parse = demo_parse, JSON_stringify = demo_stringify\<rparr>"

text \<open>Values the agent call resolves to in the closed instances.\<close>

definition hi_there :: "int jsval" where
  "hi_there =
     JObj [(''success'', JBool True),
           (''response'', JObj [(''result'', JObj [(''data'', JObj [(''response'', JStr ''Hi there!'')])])])]"

definition empty_reply :: "int jsval" where
  "empty_reply =
     JObj [(''success'', JBool True),
           (''response'', JObj [(''result'', JObj [(''data'', JObj [(''response'', JArr [])])])])]"

definition empty_string_reply :: "int jsval" where
  "empty_string_reply =
     JObj [(''success'', JBool True), (''response'', JObj [(''result'', JStr [])])]"

section \<open>Properties of the response normalizer\<close>

subsection \<open>Property reads and the four strategies, one at a time\<close>

lemma member_defined: "member_opt v k \<noteq> JUndefined \<Longrightarrow> member v k = Inr (member_opt v k)"
  by (auto simp: member_def member_opt_def)

lemma truthy_defined: "truthy h v \<Longrightarrow> v \<noteq> JUndefined"
  by (cases v) auto

lemma isArray_defined: "isArray v \<Longrightarrow> v \<noteq> JUndefined"
  by (cases v) auto

lemma member_opt_undefined [simp]: "member_opt JUndefined k = JUndefined"
  by (simp add: member_opt_def)

lemma member_opt_string [simp]: "member_opt (JStr s) k = JUndefined"
  by (simp add: member_opt_def)

lemma typeof_string: "typeof v = ''string'' \<longleftrightarrow> (\<exists>s. v = JStr s)"
  by (cases v) auto

lemma member_nested:
  assumes "member_opt (member_opt v k) k' \<noteq> JUndefined"
  shows "bindE (member v k) (\<lambda>d. member d k') = Inr (member_opt (member_opt v k) k')"
proof -
  from assms have d: "member_opt v k \<noteq> JUndefined" by (auto simp: member_opt_def)
  show ?thesis using assms d by (simp add: member_defined bindE_def)
qed

lemma primary_path_skip:
  "\<not> truthy h (member_opt (member_opt result ''data'') ''response'') \<Longrightarrow> primary_path h result l = Normal l"
  by (simp add: primary_path_def if_then_else_def skip_def)

lemma primary_path_throw:
  assumes "truthy h (member_opt (member_opt result ''data'') ''response'')"
    and "js_String h (member_opt (member_opt result ''data'') ''response'') = Inl e"
  shows "primary_path h result l = Throw e l"
  using assms member_nested[OF truthy_defined[OF assms(1)]]
  by (simp add: primary_path_def if_then_else_def seq_def assign_text_def String_of_def bindE_def)

lemma primary_path_return:
  assumes "truthy h (member_opt (member_opt result ''data'') ''response'')"
    and "js_String h (member_opt (member_opt result ''data'') ''response'') = Inr s"
  shows "primary_path h result l =
    Return (l\<lparr>text' := JStr s,
              suggestions := (if isArray (member_opt (member_opt result ''data'') ''follow_up_suggestions'')
                              then member_opt (member_opt result ''data'') ''follow_up_suggestions''
                              else suggestions l)\<rparr>)"
  using assms member_nested[OF truthy_defined[OF assms(1)]]
    member_nested[OF isArray_defined, of result "''data''" "''follow_up_suggestions''"]
  by (simp add: primary_path_def if_then_else_def seq_def assign_text_def String_of_def bindE_def
      assign_suggestions_def return_locals_def skip_def)

lemma flat_condition:
  "and_then (Inr (truthy h (member_opt result ''response'')))
     (bindE (member result ''response'') (\<lambda>r. Inr (typeof r = ''string'')))
   = Inr (\<exists>s. member_opt result ''response'' = JStr s \<and> s \<noteq> [])"
proof (cases "truthy h (member_opt result ''response'')")
  case True
  then show ?thesis
    using member_defined[OF truthy_defined[OF True]]
    by (auto simp: and_then_def bindE_def typeof_string)
next
  case False
  then show ?thesis by (auto simp: and_then_def bindE_def)
qed

lemma flat_path_skip:
  "\<not> (\<exists>s. member_opt result ''response'' = JStr s \<and> s \<noteq> []) \<Longrightarrow> flat_path h result l = Normal l"
  unfolding flat_path_def flat_condition by (auto simp: if_then_else_def skip_def)

lemma flat_path_return:
  assumes "member_opt result ''response'' = JStr s" and "s \<noteq> []"
  shows "flat_path h result l =
    Return (l\<lparr>text' := JStr s,
              suggestions := (if isArray (member_opt result ''follow_up_suggestions'')
                              then member_opt result ''follow_up_suggestions''
                              else suggestions l)\<rparr>)"
proof -
  have m: "member result ''response'' = Inr (JStr s)"
    using member_defined[of result "''response''"] assms by simp
  show ?thesis
    unfolding flat_path_def flat_condition
    using assms m member_defined[OF isArray_defined, of result "''follow_up_suggestions''"]
    by (simp add: if_then_else_def seq_def assign_text_def assign_suggestions_def
        return_locals_def skip_def)
qed

lemma parsed_paths_cases:
  "parsed_paths h p l =
     (if truthy h (member_opt (member_opt p ''data'') ''response'') then
        (case js_String h (member_opt (member_opt p ''data'') ''response'') of
           Inl e \<Rightarrow> Throw e l
         | Inr t \<Rightarrow> Return (l\<lparr>text' := JStr t,
              suggestions := (if isArray (member_opt (member_opt p ''data'') ''follow_up_suggestions'')
                              then member_opt (member_opt p ''data'') ''follow_up_suggestions''
                              else suggestions l)\<rparr>))
      else if truthy h (member_opt p ''response'') then
        (case js_String h (member_opt p ''response'') of
           Inl e \<Rightarrow> Throw e l
         | Inr t \<Rightarrow> Return (l\<lparr>text' := JStr t\<rparr>))
      else Normal l)"
proof (cases "truthy h (member_opt (member_opt p ''data'') ''response'')")
  case True
  show ?thesis
    using True member_nested[OF truthy_defined[OF True]]
      member_nested[OF isArray_defined, of p "''data''" "''follow_up_suggestions''"]
    by (simp add: parsed_paths_def if_then_else_def seq_def assign_text_def String_of_def bindE_def
      assign_suggestions_def return_locals_def skip_def split: sum.splits)
next
  case False
  show ?thesis
  proof (cases "truthy h (member_opt p ''response'')")
    case True
    show ?thesis
      using False True member_defined[OF truthy_defined[OF True]]
      by (simp add: parsed_paths_def if_then_else_def seq_def assign_text_def String_of_def bindE_def
        return_locals_def skip_def split: sum.splits)
  next
    case F2: False
    show ?thesis
      using False F2
      by (simp add: parsed_paths_def if_then_else_def seq_def skip_def)
  qed
qed

lemma parse_attempt_string:
  "parse_attempt h (JStr s) l =
     (case JSON_parse h s of None \<Rightarrow> Throw SyntaxError l | Some p \<Rightarrow> parsed_paths h p l)"
  by (simp add: parse_attempt_def JSON_parse_or_throw_def bindE_def split: option.splits)

lemma parsed_paths_locals:
  "parsed_paths h p l = Throw e l' \<Longrightarrow> l' = l"
  "parsed_paths h p l = Normal l' \<Longrightarrow> l' = l"
  by (auto simp: parsed_paths_cases split: if_splits sum.splits)

lemma parse_attempt_locals:
  "parse_attempt h (JStr s) l = Throw e l' \<Longrightarrow> l' = l"
  "parse_attempt h (JStr s) l = Normal l' \<Longrightarrow> l' = l"
  by (auto simp: parse_attempt_string dest: parsed_paths_locals split: option.splits)

lemma string_path_skip:
  "typeof result \<noteq> ''string'' \<Longrightarrow> string_path h result l = Normal l"
  by (simp add: string_path_def if_then_else_def skip_def)

lemma string_path_string:
  "string_path h (JStr s) l =
     (case parse_attempt h (JStr s) l of
        Throw e l' \<Rightarrow> Return (l\<lparr>text' := JStr s\<rparr>)
      | Normal l' \<Rightarrow> Normal l
      | Return r \<Rightarrow> Return r)"
  by (auto simp: string_path_def if_then_else_def try_catch_def seq_def assign_text_def
      return_locals_def dest: parse_attempt_locals split: completion.splits)

lemma fallback_cases:
  "fallback h result l =
     (if truthy h (member_opt result ''summary'') then
        (case js_String h (member_opt result ''summary'') of
           Inl e \<Rightarrow> Throw e l | Inr t \<Rightarrow> Normal (l\<lparr>text' := JStr t\<rparr>))
      else if truthy h (member_opt result ''text'') then
        (case js_String h (member_opt result ''text'') of
           Inl e \<Rightarrow> Throw e l | Inr t \<Rightarrow> Normal (l\<lparr>text' := JStr t\<rparr>))
      else if truthy h (member_opt result ''message'') then
        (case js_String h (member_opt result ''message'') of
           Inl e \<Rightarrow> Throw e l | Inr t \<Rightarrow> Normal (l\<lparr>text' := JStr t\<rparr>))
      else if truthy h (member_opt result ''answer'') then
        (case js_String h (member_opt result ''answer'') of
           Inl e \<Rightarrow> Throw e l | Inr t \<Rightarrow> Normal (l\<lparr>text' := JStr t\<rparr>))
      else if nullish result then Normal (l\<lparr>text' := JStr ''No response received.''\<rparr>)
      else if typeof result = ''object'' then Normal (l\<lparr>text' := JStr (JSON_stringify h result)\<rparr>)
      else (case js_String h result of
           Inl e \<Rightarrow> Throw e l | Inr t \<Rightarrow> Normal (l\<lparr>text' := JStr t\<rparr>)))"
  using member_defined[OF truthy_defined, of h result "''summary''"]
    member_defined[OF truthy_defined, of h result "''text''"]
    member_defined[OF truthy_defined, of h result "''message''"]
    member_defined[OF truthy_defined, of h result "''answer''"]
  by (simp add: fallback_def if_then_else_def assign_text_def String_of_def bindE_def
      split: sum.splits)

lemma primary_path_locals:
  "primary_path h result l = Throw e l' \<Longrightarrow> l' = l"
  "primary_path h result l = Normal l' \<Longrightarrow> l' = l"
  using primary_path_skip[of h result l] primary_path_throw[of h result _ l]
    primary_path_return[of h result _ l]
  by (cases "truthy h (member_opt (member_opt result ''data'') ''response'')";
      cases "js_String h (member_opt (member_opt result ''data'') ''response'')"; simp)+

lemma flat_path_locals:
  "flat_path h result l \<noteq> Throw e l'"
  "flat_path h result l = Normal l' \<Longrightarrow> l' = l"
  using flat_path_skip[of result h l] flat_path_return[of result _ h l]
  by (cases "\<exists>s. member_opt result ''response'' = JStr s \<and> s \<noteq> []"; auto)+

lemma string_path_locals:
  "string_path h result l \<noteq> Throw e l'"
  "string_path h result l = Normal l' \<Longrightarrow> l' = l"
  using string_path_skip[of result h l] string_path_string[of h _ l]
  by (cases "typeof result = ''string''"; auto simp: typeof_string split: completion.splits)+

lemma fallback_locals:
  "fallback h result l = Throw e l' \<Longrightarrow> l' = l"
  "fallback h result l \<noteq> Return r"
  by (auto simp: fallback_cases split: if_splits sum.splits)

lemma try_block_throw_locals:
  assumes "try_block h result l = Throw e l'"
  shows "l' = l"
  using assms unfolding try_block_def seq_def
  by (auto split: completion.splits
      dest!: primary_path_locals flat_path_locals(2) string_path_locals(2) fallback_locals(1)
      simp: flat_path_locals(1) string_path_locals(1))

lemma handler_normal:
  "assign_text (Inr v) l = Normal (l\<lparr>text' := v\<rparr>)"
  by (simp add: assign_text_def)

lemma parseAgentResponse_of_try_block:
  "parseAgentResponse h result =
     (case try_block h result initial_locals of
        Normal l \<Rightarrow> Inr l
      | Return r \<Rightarrow> Inr r
      | Throw e l \<Rightarrow> Inr (l\<lparr>text' := JStr ''Unable to parse response.''\<rparr>))"
  by (simp add: parseAgentResponse_def try_catch_def handler_normal split: completion.splits)

lemma try_block_string:
  "try_block h (JStr s) l =
     (case parse_attempt h (JStr s) l of
        Throw e l' \<Rightarrow> Return (l\<lparr>text' := JStr s\<rparr>)
      | Normal l' \<Rightarrow> Normal (l\<lparr>text' := JStr s\<rparr>)
      | Return r \<Rightarrow> Return r)"
proof -
  have 1: "primary_path h (JStr s) l = Normal l"
    by (rule primary_path_skip) simp
  have 2: "flat_path h (JStr s) l = Normal l"
    by (rule flat_path_skip) simp
  have 3: "fallback h (JStr s) l = Normal (l\<lparr>text' := JStr s\<rparr>)"
    by (simp add: fallback_cases)
  show ?thesis
    by (simp add: try_block_def seq_def 1 2 3 string_path_string split: completion.splits)
qed

lemmas eval_defs = parseAgentResponse_def try_catch_def try_block_def seq_def primary_path_def
  flat_path_def string_path_def parse_attempt_def parsed_paths_def fallback_def
  JSON_parse_or_throw_def if_then_else_def assign_text_def assign_suggestions_def
  return_locals_def skip_def and_then_def String_of_def bindE_def member_def member_opt_def
  initial_locals_def demo_host_def demo_parse_def demo_stringify_def toString_payload_def

lemma string_of_int_5: "string_of_int 5 = ''5''"
  by code_simp

subsection \<open>No exception leaves the normalizer\<close>

text \<open>
  C1 (amended). \<open>parseAgentResponse\<close> returns a value for every payload and every host:
  no exception leaves it. When the \<open>try\<close> block throws, the result is the fixed text
  \<open>Unable to parse response.\<close> with empty suggestions. An exception raised while a
  string payload is handled as JSON (a parse error, or a failing string conversion of
  the parsed response) never reaches that handler: the inner \<open>catch\<close> answers with the
  payload string itself and empty suggestions.
\<close>

theorem parseAgentResponse_never_throws:
  "\<exists>r. parseAgentResponse h result = Inr r \<and>
     ((\<exists>e l. try_block h result initial_locals = Throw e l) \<longrightarrow>
        r = \<lparr>text' = JStr ''Unable to parse response.'', suggestions = JArr []\<rparr>) \<and>
     ((\<exists>e l. typeof result = ''string'' \<and> parse_attempt h result initial_locals = Throw e l) \<longrightarrow>
        r = \<lparr>text' = result, suggestions = JArr []\<rparr>)"
proof -
  have a: "r = \<lparr>text' = JStr ''Unable to parse response.'', suggestions = JArr []\<rparr>"
    if "parseAgentResponse h result = Inr r" "try_block h result initial_locals = Throw e l"
    for r e l
  proof -
    from that(2) have "l = initial_locals" by (rule try_block_throw_locals)
    with that show ?thesis
      by (simp add: parseAgentResponse_of_try_block initial_locals_def)
  qed
  have b: "r = \<lparr>text' = result, suggestions = JArr []\<rparr>"
    if "parseAgentResponse h result = Inr r" "typeof result = ''string''"
      "parse_attempt h result initial_locals = Throw e l"
    for r e l
  proof -
    from that(2) obtain s where s: "result = JStr s" by (auto simp: typeof_string)
    with that show ?thesis
      by (simp add: parseAgentResponse_of_try_block try_block_string initial_locals_def)
  qed
  obtain r where r: "parseAgentResponse h result = Inr r"
    by (cases "try_block h result initial_locals") (simp_all add: parseAgentResponse_of_try_block)
  show ?thesis using r a[OF r] b[OF r] by blast
qed

text \<open>
  Both handlers at work on the example host: an object whose \<open>data.response\<close> has an
  own \<open>toString\<close> property cannot be converted to a string, so the outer handler
  answers; the same object as a JSON string is answered by the inner handler.
\<close>

theorem parseAgentResponse_never_throws_witness:
  "try_block demo_host
      (JObj [(''data'', JObj [(''response'', JObj [(''toString'', JNum 1)])])]) initial_locals
     = Throw TypeError initial_locals \<and>
   parseAgentResponse demo_host
      (JObj [(''data'', JObj [(''response'', JObj [(''toString'', JNum 1)])])])
     = Inr \<lparr>text' = JStr ''Unable to parse response.'', suggestions = JArr []\<rparr> \<and>
   parse_attempt demo_host (JStr toString_payload) initial_locals = Throw TypeError initial_locals \<and>
   parseAgentResponse demo_host (JStr toString_payload)
     = Inr \<lparr>text' = JStr toString_payload, suggestions = JArr []\<rparr>"
proof -
  let ?obj = "JObj [(''data'', JObj [(''response'', JObj [(''toString'', JNum (1::int))])])]"
  have t1: "try_block demo_host ?obj initial_locals = Throw TypeError initial_locals"
    by (simp add: eval_defs)
  have t2: "parse_attempt demo_host (JStr toString_payload) initial_locals
      = Throw TypeError initial_locals"
    by (simp add: eval_defs)
  from parseAgentResponse_never_throws[of demo_host ?obj] t1
  have r1: "parseAgentResponse demo_host ?obj
      = Inr \<lparr>text' = JStr ''Unable to parse response.'', suggestions = JArr []\<rparr>"
    by auto
  from parseAgentResponse_never_throws[of demo_host "JStr toString_payload"] t2
  have r2: "parseAgentResponse demo_host (JStr toString_payload)
      = Inr \<lparr>text' = JStr toString_payload, suggestions = JArr []\<rparr>"
    by auto
  from t1 t2 r1 r2 show ?thesis by simp
qed

text \<open>
  As stated, with the fixed text promised after any exception of the resolution, C1
  fails: on the JSON string \<open>{"data":{"response":{"toString":1}}}\<close> the conversion of
  the parsed response throws \<open>TypeError\<close>, and the result is the payload string.
\<close>

theorem inner_fault_counterexample:
  "parse_attempt demo_host (JStr toString_payload) initial_locals = Throw TypeError initial_locals \<and>
   parseAgentResponse demo_host (JStr toString_payload)
     = Inr \<lparr>text' = JStr toString_payload, suggestions = JArr []\<rparr> \<and>
   toString_payload \<noteq> ''Unable to parse response.''"
  by (simp add: eval_defs)

subsection \<open>The nested shape\<close>

text \<open>
  C2 (amended). For every payload whose \<open>data.response\<close> is truthy and converts to the
  string \<open>s\<close>, the normalizer returns the text \<open>s\<close>; the suggestions are the value of
  \<open>data.follow_up_suggestions\<close> itself when it is an array, and the empty array
  otherwise.
\<close>

theorem primary_path_result:
  assumes "truthy h (nested_response result)"
    and "js_String h (nested_response result) = Inr s"
  shows "parseAgentResponse h result =
    Inr \<lparr>text' = JStr s,
         suggestions = array_or_empty (member_opt (member_opt result ''data'') ''follow_up_suggestions'')\<rparr>"
  using assms unfolding nested_response_def
  by (simp add: parseAgentResponse_of_try_block try_block_def seq_def primary_path_return
      initial_locals_def array_or_empty_def)

theorem primary_path_result_witness:
  "truthy demo_host (nested_response (JObj [(''data'', JObj [(''response'', JStr ''X''),
      (''follow_up_suggestions'', JArr [JStr ''a'', JNum 3])])])) \<and>
   parseAgentResponse demo_host (JObj [(''data'', JObj [(''response'', JStr ''X''),
      (''follow_up_suggestions'', JArr [JStr ''a'', JNum 3])])])
     = Inr \<lparr>text' = JStr ''X'', suggestions = JArr [JStr ''a'', JNum 3]\<rparr>"
proof -
  let ?p = "JObj [(''data'', JObj [(''response'', JStr ''X''),
      (''follow_up_suggestions'', JArr [JStr ''a'', JNum (3::int)])])]"
  have n: "nested_response ?p = JStr ''X''"
    by (simp add: nested_response_def member_opt_def)
  have t: "truthy demo_host (nested_response ?p)" by (simp add: n)
  have c: "js_String demo_host (nested_response ?p) = Inr ''X''" by (simp add: n)
  from primary_path_result[OF t c] t show ?thesis
    by (simp add: array_or_empty_def member_opt_def)
qed

text \<open>
  As stated, with "non-empty when coerced to string" as the test, C2 fails: \<open>false\<close>
  coerces to the non-empty string \<open>false\<close> but is not truthy, so the primary path is
  skipped and the text comes from \<open>summary\<close>.
\<close>

theorem falsy_response_counterexample:
  "nested_response (JObj [(''data'', JObj [(''response'', JBool False)]), (''summary'', JStr ''S'')])
     = (JBool False :: int jsval) \<and>
   js_String demo_host (JBool False) = Inr ''false'' \<and>
   parseAgentResponse demo_host
      (JObj [(''data'', JObj [(''response'', JBool False)]), (''summary'', JStr ''S'')])
     = Inr \<lparr>text' = JStr ''S'', suggestions = JArr []\<rparr>"
  by (simp add: eval_defs nested_response_def)

subsection \<open>The flat shape\<close>

text \<open>
  C3 (amended). For every payload whose \<open>data.response\<close> is not truthy and whose
  \<open>response\<close> is a non-empty string \<open>s\<close>, the normalizer returns the text \<open>s\<close>; the
  suggestions are the value of \<open>follow_up_suggestions\<close> itself, in its order, when it
  is an array, and the empty array otherwise.
\<close>

theorem flat_path_result:
  assumes "\<not> truthy h (nested_response result)"
    and "member_opt result ''response'' = JStr s" and "s \<noteq> []"
  shows "parseAgentResponse h result =
    Inr \<lparr>text' = JStr s,
         suggestions = array_or_empty (member_opt result ''follow_up_suggestions'')\<rparr>"
  using assms unfolding nested_response_def
  by (simp add: parseAgentResponse_of_try_block try_block_def seq_def primary_path_skip
      flat_path_return initial_locals_def array_or_empty_def)

theorem flat_path_result_witness:
  "\<not> truthy demo_host (nested_response (JObj [(''response'', JStr ''X''),
      (''follow_up_suggestions'', JArr [JStr ''s1'', JStr ''s2''])])) \<and>
   parseAgentResponse demo_host (JObj [(''response'', JStr ''X''),
      (''follow_up_suggestions'', JArr [JStr ''s1'', JStr ''s2''])])
     = Inr \<lparr>text' = JStr ''X'', suggestions = JArr [JStr ''s1'', JStr ''s2'']\<rparr>"
proof -
  let ?p = "JObj [(''response'', JStr ''X''),
      (''follow_up_suggestions'', JArr [JStr ''s1'', JStr ''s2''])] :: int jsval"
  have n: "\<not> truthy demo_host (nested_response ?p)"
    by (simp add: nested_response_def member_opt_def)
  have r: "member_opt ?p ''response'' = JStr ''X''" by (simp add: member_opt_def)
  have "''X'' \<noteq> []" by simp
  from flat_path_result[OF n r this] n show ?thesis
    by (simp add: array_or_empty_def member_opt_def)
qed

text \<open>
  As stated, for every string \<open>response\<close>, C3 fails on the empty string: it is not
  truthy, the flat path is skipped and the text comes from \<open>summary\<close>.
\<close>

theorem empty_response_counterexample:
  "\<not> truthy demo_host (nested_response (JObj [(''response'', JStr []), (''summary'', JStr ''S'')])) \<and>
   member_opt (JObj [(''response'', JStr []), (''summary'', JStr ''S'')]) ''response''
     = (JStr [] :: int jsval) \<and>
   parseAgentResponse demo_host (JObj [(''response'', JStr []), (''summary'', JStr ''S'')])
     = Inr \<lparr>text' = JStr ''S'', suggestions = JArr []\<rparr>"
  by (simp add: eval_defs nested_response_def)

subsection \<open>String payloads\<close>

text \<open>
  C4 (amended). For a payload that is a string \<open>s\<close>: when \<open>JSON.parse\<close> fails the text
  is \<open>s\<close>; when the parsed value has a truthy \<open>data.response\<close> the text is its string
  conversion, with \<open>data.follow_up_suggestions\<close> as suggestions when it is an array;
  otherwise, when the parsed value has a truthy \<open>response\<close> of any type, the text is
  its string conversion and the suggestions are empty; when neither is truthy, or when
  the conversion throws, the text is \<open>s\<close> itself and the suggestions are empty.
\<close>

theorem string_payload_result:
  "parseAgentResponse h (JStr s) =
     Inr (case JSON_parse h s of
            None \<Rightarrow> \<lparr>text' = JStr s, suggestions = JArr []\<rparr>
          | Some p \<Rightarrow>
              if truthy h (nested_response p) then
                (case js_String h (nested_response p) of
                   Inr t \<Rightarrow> \<lparr>text' = JStr t, suggestions =
                       array_or_empty (member_opt (member_opt p ''data'') ''follow_up_suggestions'')\<rparr>
                 | Inl e \<Rightarrow> \<lparr>text' = JStr s, suggestions = JArr []\<rparr>)
              else if truthy h (member_opt p ''response'') then
                (case js_String h (member_opt p ''response'') of
                   Inr t \<Rightarrow> \<lparr>text' = JStr t, suggestions = JArr []\<rparr>
                 | Inl e \<Rightarrow> \<lparr>text' = JStr s, suggestions = JArr []\<rparr>)
              else \<lparr>text' = JStr s, suggestions = JArr []\<rparr>)"
  by (simp add: parseAgentResponse_of_try_block try_block_string parse_attempt_string
      parsed_paths_cases initial_locals_def array_or_empty_def nested_response_def
      split: option.splits sum.splits)

theorem string_payload_result_witness:
  "parseAgentResponse demo_host (JStr ''{\"data\":{\"response\":\"hi\"}}'')
     = Inr \<lparr>text' = JStr ''hi'', suggestions = JArr []\<rparr> \<and>
   parseAgentResponse demo_host (JStr ''plain text, not json'')
     = Inr \<lparr>text' = JStr ''plain text, not json'', suggestions = JArr []\<rparr> \<and>
   parseAgentResponse demo_host (JStr ''{\"answer\":\"yes\"}'')
     = Inr \<lparr>text' = JStr ''{\"answer\":\"yes\"}'', suggestions = JArr []\<rparr>"
  using string_payload_result[of demo_host "''{\"data\":{\"response\":\"hi\"}}''"]
    string_payload_result[of demo_host "''plain text, not json''"]
    string_payload_result[of demo_host "''{\"answer\":\"yes\"}''"]
  by (simp add: demo_host_def demo_parse_def toString_payload_def nested_response_def
      member_opt_def array_or_empty_def)

text \<open>
  As stated, with the flat shape requiring a \<open>response\<close> that is a string, C4 fails:
  \<open>{"response":5}\<close> parses to an object whose \<open>response\<close> is a number, which matches
  neither shape, yet the text is \<open>5\<close> and not the payload string.
\<close>

theorem coerced_response_counterexample:
  "JSON_parse demo_host ''{\"response\":5}'' = Some (JObj [(''response'', JNum 5)]) \<and>
   typeof (JNum 5 :: int jsval) \<noteq> ''string'' \<and>
   parseAgentResponse demo_host (JStr ''{\"response\":5}'')
     = Inr \<lparr>text' = JStr ''5'', suggestions = JArr []\<rparr>"
  by (simp add: eval_defs string_of_int_5)

subsection \<open>The generic fallback\<close>

text \<open>
  C5 (amended). For every payload that takes none of the three strategies above
  (\<open>data.response\<close> not truthy, \<open>response\<close> not a non-empty string, payload not a
  string): the first truthy value among \<open>summary\<close>, \<open>text\<close>, \<open>message\<close>, \<open>answer\<close> is
  converted to a string and is the text (the fixed text \<open>Unable to parse response.\<close>
  when that conversion throws); with no truthy one, the text is
  \<open>No response received.\<close> for \<open>null\<close> and \<open>undefined\<close>, the indented JSON
  serialization for an object or array, and the string conversion for any other
  value. The suggestions are empty in each case.
\<close>

theorem fallback_result:
  assumes "\<not> truthy h (nested_response result)"
    and "\<not> (\<exists>s. member_opt result ''response'' = JStr s \<and> s \<noteq> [])"
    and "typeof result \<noteq> ''string''"
  shows "parseAgentResponse h result =
    Inr \<lparr>text' =
          (case recognizable_field h result of
             Some v \<Rightarrow>
               (case js_String h v of
                  Inr t \<Rightarrow> JStr t
                | Inl e \<Rightarrow> JStr ''Unable to parse response.'')
           | None \<Rightarrow>
               if nullish result then JStr ''No response received.''
               else if typeof result = ''object'' then JStr (JSON_stringify h result)
               else (case js_String h result of
                       Inr t \<Rightarrow> JStr t
                     | Inl e \<Rightarrow> JStr ''Unable to parse response.'')),
         suggestions = JArr []\<rparr>"
  using assms unfolding nested_response_def recognizable_field_def
  by (simp add: parseAgentResponse_of_try_block try_block_def seq_def primary_path_skip
      flat_path_skip string_path_skip fallback_cases initial_locals_def split: sum.splits)

theorem fallback_result_witness:
  "parseAgentResponse demo_host (JObj [(''summary'', JNum 0), (''message'', JStr ''M'')])
     = Inr \<lparr>text' = JStr ''M'', suggestions = JArr []\<rparr> \<and>
   parseAgentResponse demo_host (JObj [(''status'', JStr ''ok'')])
     = Inr \<lparr>text' = JStr (''{'' @ [CHR 0x0A] @ ''  \"status\": \"ok\"'' @ [CHR 0x0A] @ ''}''),
            suggestions = JArr []\<rparr> \<and>
   parseAgentResponse demo_host JNull
     = Inr \<lparr>text' = JStr ''No response received.'', suggestions = JArr []\<rparr> \<and>
   parseAgentResponse demo_host JUndefined
     = Inr \<lparr>text' = JStr ''No response received.'', suggestions = JArr []\<rparr>"
proof -
  let ?a = "JObj [(''summary'', JNum 0), (''message'', JStr ''M'')] :: int jsval"
  let ?b = "JObj [(''status'', JStr ''ok'')] :: int jsval"
  have a: "\<not> truthy demo_host (nested_response ?a)"
    "\<not> (\<exists>s. member_opt ?a ''response'' = JStr s \<and> s \<noteq> [])" "typeof ?a \<noteq> ''string''"
    by (simp_all add: nested_response_def member_opt_def)
  have b: "\<not> truthy demo_host (nested_response ?b)"
    "\<not> (\<exists>s. member_opt ?b ''response'' = JStr s \<and> s \<noteq> [])" "typeof ?b \<noteq> ''string''"
    by (simp_all add: nested_response_def member_opt_def)
  have c: "\<not> truthy demo_host (nested_response (JNull :: int jsval))"
    "\<not> (\<exists>s. member_opt (JNull :: int jsval) ''response'' = JStr s \<and> s \<noteq> [])"
    "typeof (JNull :: int jsval) \<noteq> ''string''"
    by (simp_all add: nested_response_def member_opt_def)
  have d: "\<not> truthy demo_host (nested_response (JUndefined :: int jsval))"
    "\<not> (\<exists>s. member_opt (JUndefined :: int jsval) ''response'' = JStr s \<and> s \<noteq> [])"
    "typeof (JUndefined :: int jsval) \<noteq> ''string''"
    by (simp_all add: nested_response_def member_opt_def)
  show ?thesis
    using fallback_result[OF a] fallback_result[OF b] fallback_result[OF c] fallback_result[OF d]
    by (simp add: recognizable_field_def member_opt_def demo_host_def demo_stringify_def)
qed

text \<open>
  As stated, with the first present non-null value winning, C5 fails: a \<open>summary\<close>
  that is \<open>false\<close> is present and not null, yet the text comes from \<open>text\<close>.
\<close>

theorem falsy_summary_counterexample:
  "member_opt (JObj [(''summary'', JBool False), (''text'', JStr ''T'')]) ''summary''
     = (JBool False :: int jsval) \<and>
   js_String demo_host (JBool False) = Inr ''false'' \<and>
   parseAgentResponse demo_host (JObj [(''summary'', JBool False), (''text'', JStr ''T'')])
     = Inr \<lparr>text' = JStr ''T'', suggestions = JArr []\<rparr>"
  by (simp add: eval_defs)

section \<open>Properties of the markup renderer\<close>

subsection \<open>The pattern of a numbered item\<close>

lemma not_digit_dot: "\<not> is_digit CHR ''.''"
  by (simp add: is_digit_def)

lemma numbered_line_split:
  assumes "numbered_line t ds rest"
  shows "takeWhile is_digit t = ds"
    and "\<exists>w. dropWhile is_digit t = CHR ''.'' # w # rest \<and> is_white_space w"
proof -
  from assms obtain w where t: "t = ds @ CHR ''.'' # w # rest" and d: "list_all is_digit ds"
    and w: "is_white_space w"
    by (auto simp: numbered_line_def)
  from d have d': "\<forall>c\<in>set ds. is_digit c" by (simp add: list_all_iff)
  show "takeWhile is_digit t = ds"
    unfolding t using d' not_digit_dot by (simp add: takeWhile_append2)
  have "dropWhile is_digit t = CHR ''.'' # w # rest"
    unfolding t using d' not_digit_dot by (simp add: dropWhile_append2)
  with w show "\<exists>w. dropWhile is_digit t = CHR ''.'' # w # rest \<and> is_white_space w" by blast
qed

lemma num_match_Some:
  assumes "numbered_line t ds rest" and "\<forall>c\<in>set rest. \<not> is_line_terminator c"
  shows "num_match t = Some (ds, rest)"
proof -
  from numbered_line_split[OF assms(1)] obtain w where
    tw: "takeWhile is_digit t = ds" and dw: "dropWhile is_digit t = CHR ''.'' # w # rest"
    and w: "is_white_space w" by blast
  from assms(1) have ne: "ds \<noteq> []" "rest \<noteq> []" by (auto simp: numbered_line_def)
  from assms(2) have tk: "takeWhile (\<lambda>c. \<not> is_line_terminator c) rest = rest"
    by (simp add: takeWhile_eq_all_conv)
  show ?thesis
    by (simp add: num_match_def tw dw w ne tk Let_def)
qed

lemma num_match_None:
  assumes "\<not> (\<exists>ds rest. numbered_line t ds rest)"
  shows "num_match t = None"
proof (rule ccontr)
  assume "num_match t \<noteq> None"
  then obtain ds content where m: "num_match t = Some (ds, content)" by auto
  then obtain w rest where ds: "ds = takeWhile is_digit t" "ds \<noteq> []"
    and dw: "dropWhile is_digit t = CHR ''.'' # w # rest" and w: "is_white_space w"
    and c: "takeWhile (\<lambda>c. \<not> is_line_terminator c) rest \<noteq> []"
    by (auto simp: num_match_def Let_def split: list.splits if_splits)
  have t: "t = ds @ CHR ''.'' # w # rest"
    using takeWhile_dropWhile_id[of is_digit t] ds(1) dw by simp
  have "list_all is_digit ds" unfolding ds(1) list_all_iff by (auto dest: set_takeWhileD)
  moreover from c have "rest \<noteq> []" by auto
  ultimately have "numbered_line t ds rest"
    using t ds(2) w by (auto simp: numbered_line_def)
  with assms show False by blast
qed

lemma renderInline_third: "renderInline ''third'' = Parts [Plain ''third'']"
  by code_simp

lemma renderInline_third_again: "renderInline ''third again'' = Parts [Plain ''third again'']"
  by code_simp

subsection \<open>Line classification\<close>

text \<open>
  C6 (amended). \<open>MarkdownRenderer\<close> renders every line of its input on its own, and
  classifies the trimmed line \<open>t\<close> in this order: empty gives a blank block; the
  prefixes \<open>### \<close>, \<open>## \<close>, \<open># \<close> give a heading of level 3, 2, 1 of the remainder; the
  prefixes \<open>- \<close> and \<open>* \<close> give a bullet item of the remainder after the two-character
  marker; a line made of one or more digits, a dot, exactly one white-space character
  (a space, a tab or any other character of \<open>\s\<close>) and a non-empty remaining text
  gives, when the remaining text holds no line terminator, a numbered item that shows
  the digits as they are written, followed by the dot, with the remaining text; a
  line of none of these forms gives a paragraph of the whole trimmed line. What a
  line of digits, dot, white space and a remaining text that holds a line terminator
  gives is not stated here.
\<close>

theorem MarkdownRenderer_classification:
  "MarkdownRenderer (Some c) = map render_line (split_lines c) \<and>
   (\<forall>line. let t = trim line in
      (t = [] \<longrightarrow> render_line line = Blank) \<and>
      (startsWith t ''### '' \<longrightarrow> render_line line = Heading 3 (renderInline (drop 4 t))) \<and>
      (\<not> startsWith t ''### '' \<and> startsWith t ''## '' \<longrightarrow>
         render_line line = Heading 2 (renderInline (drop 3 t))) \<and>
      (\<not> startsWith t ''### '' \<and> \<not> startsWith t ''## '' \<and> startsWith t ''# '' \<longrightarrow>
         render_line line = Heading 1 (renderInline (drop 2 t))) \<and>
      (\<not> startsWith t ''### '' \<and> \<not> startsWith t ''## '' \<and> \<not> startsWith t ''# '' \<and>
         (startsWith t ''- '' \<or> startsWith t ''* '') \<longrightarrow>
         render_line line = Bullet (renderInline (drop 2 t))) \<and>
      (\<forall>ds rest. \<not> heading_or_bullet t \<and> numbered_line t ds rest \<and>
         (\<forall>ch\<in>set rest. \<not> is_line_terminator ch) \<longrightarrow>
         render_line line = Numbered (ds @ ''.'') (renderInline rest)) \<and>
      (t \<noteq> [] \<and> \<not> heading_or_bullet t \<and> \<not> (\<exists>ds rest. numbered_line t ds rest) \<longrightarrow>
         render_line line = Paragraph (renderInline t)))"
proof -
  have sw: "\<not> startsWith [] p" if "p \<noteq> []" for p :: string
    using that by (auto simp: startsWith_def)
  have "render_line line = Blank" if "trim line = []" for line
    using that by (simp add: render_line_def)
  moreover have "render_line line = Heading 3 (renderInline (drop 4 (trim line)))"
    if "startsWith (trim line) ''### ''" for line
    using that sw[of "''### ''"] by (auto simp: render_line_def slice_from_def Let_def)
  moreover have "render_line line = Heading 2 (renderInline (drop 3 (trim line)))"
    if "\<not> startsWith (trim line) ''### ''" "startsWith (trim line) ''## ''" for line
    using that sw[of "''## ''"] by (auto simp: render_line_def slice_from_def Let_def)
  moreover have "render_line line = Heading 1 (renderInline (drop 2 (trim line)))"
    if "\<not> startsWith (trim line) ''### ''" "\<not> startsWith (trim line) ''## ''"
      "startsWith (trim line) ''# ''" for line
    using that sw[of "''# ''"] by (auto simp: render_line_def slice_from_def Let_def)
  moreover have "render_line line = Bullet (renderInline (drop 2 (trim line)))"
    if "\<not> startsWith (trim line) ''### ''" "\<not> startsWith (trim line) ''## ''"
      "\<not> startsWith (trim line) ''# ''"
      "startsWith (trim line) ''- '' \<or> startsWith (trim line) ''* ''" for line
    using that sw[of "''- ''"] sw[of "''* ''"]
    by (auto simp: render_line_def slice_from_def Let_def)
  moreover have "render_line line = Numbered (ds @ ''.'') (renderInline rest)"
    if "\<not> heading_or_bullet (trim line)" "numbered_line (trim line) ds rest"
      "\<forall>ch\<in>set rest. \<not> is_line_terminator ch" for line ds rest
  proof -
    from that(2) have "trim line \<noteq> []" by (auto simp: numbered_line_def)
    with that(1) num_match_Some[OF that(2,3)] show ?thesis
      by (simp add: render_line_def heading_or_bullet_def Let_def)
  qed
  moreover have "render_line line = Paragraph (renderInline (trim line))"
    if "trim line \<noteq> []" "\<not> heading_or_bullet (trim line)"
      "\<not> (\<exists>ds rest. numbered_line (trim line) ds rest)" for line
    using that num_match_None[OF that(3)]
    by (simp add: render_line_def heading_or_bullet_def Let_def)
  ultimately show ?thesis
    unfolding Let_def MarkdownRenderer_def by (simp (no_asm_simp))
qed

text \<open>Two lines numbered 3 stay numbered 3: nothing is renumbered.\<close>

theorem MarkdownRenderer_classification_witness:
  "MarkdownRenderer (Some (''3. third'' @ [CHR 0x0A] @ ''3. third again''))
     = [Numbered ''3.'' (Parts [Plain ''third'']), Numbered ''3.'' (Parts [Plain ''third again''])]"
proof -
  have t1: "trim ''3. third'' = ''3. third''" and t2: "trim ''3. third again'' = ''3. third again''"
    by (simp_all add: trim_def is_white_space_def)
  have h1: "\<not> heading_or_bullet ''3. third''" and h2: "\<not> heading_or_bullet ''3. third again''"
    by (simp_all add: heading_or_bullet_def startsWith_def)
  have n1: "numbered_line ''3. third'' ''3'' ''third''"
    unfolding numbered_line_def
    by (rule exI[of _ "CHR '' ''"]) (simp add: is_digit_def is_white_space_def)
  have n2: "numbered_line ''3. third again'' ''3'' ''third again''"
    unfolding numbered_line_def
    by (rule exI[of _ "CHR '' ''"]) (simp add: is_digit_def is_white_space_def)
  have l1: "\<forall>ch\<in>set ''third''. \<not> is_line_terminator ch"
    and l2: "\<forall>ch\<in>set ''third again''. \<not> is_line_terminator ch"
    by (simp_all add: is_line_terminator_def)
  let ?c = "''3. third'' @ [CHR 0x0A] @ ''3. third again''"
  from MarkdownRenderer_classification[of ?c]
  have m: "MarkdownRenderer (Some ?c) = map render_line (split_lines ?c)"
    and r: "\<And>line ds rest. \<not> heading_or_bullet (trim line) \<Longrightarrow> numbered_line (trim line) ds rest \<Longrightarrow>
        (\<forall>ch\<in>set rest. \<not> is_line_terminator ch) \<Longrightarrow>
        render_line line = Numbered (ds @ ''.'') (renderInline rest)"
    unfolding Let_def by blast+
  have r1: "render_line ''3. third'' = Numbered ''3.'' (Parts [Plain ''third''])"
    using r[of "''3. third''" "''3''" "''third''"] t1 h1 n1 l1 by (simp add: renderInline_third)
  have r2: "render_line ''3. third again'' = Numbered ''3.'' (Parts [Plain ''third again''])"
    using r[of "''3. third again''" "''3''" "''third again''"] t2 h2 n2 l2
    by (simp add: renderInline_third_again)
  show ?thesis unfolding m by (simp add: r1 r2)
qed

text \<open>
  As stated, with exactly one space after the dot, C6 fails: a tab after the dot is
  not a space, so the stated order makes the line a paragraph, yet it is rendered as
  a numbered item.
\<close>

theorem tab_after_dot_counterexample:
  "render_line [CHR ''1'', CHR ''.'', CHR 0x09, CHR ''x''] = Numbered ''1.'' (Parts [Plain ''x'']) \<and>
   classify_as_stated [CHR ''1'', CHR ''.'', CHR 0x09, CHR ''x'']
     = Paragraph (Parts [Plain [CHR ''1'', CHR ''.'', CHR 0x09, CHR ''x'']])"
  by code_simp

text \<open>
  The lines left out above: the pattern \<open>(.+)\<close> stops at a line terminator, so the
  item shows the remaining text up to a carriage return inside the line, where a
  bullet item or a paragraph shows all of it.
\<close>

lemma numbered_item_stops_at_carriage_return:
  "render_line (''1. a'' @ [CHR 0x0D] @ ''b'') = Numbered ''1.'' (Parts [Plain ''a'']) \<and>
   render_line (''- a'' @ [CHR 0x0D] @ ''b'') = Bullet (Parts [Plain (''a'' @ [CHR 0x0D] @ ''b'')])"
  by code_simp

subsection \<open>The regular expression and the loop\<close>

lemma startsWith_Nil [simp]: "startsWith s [] = True"
  by (simp add: startsWith_def)

lemma startsWith_Nil_left [simp]: "startsWith [] p = (p = [])"
  by (auto simp: startsWith_def)

lemma startsWith_Cons [simp]: "startsWith (c # cs) (d # p) = (c = d \<and> startsWith cs p)"
  by (auto simp: startsWith_def)

lemma startsWith_append: "startsWith s (p @ q) = (startsWith s p \<and> startsWith (drop (length p) s) q)"
proof (induction p arbitrary: s)
  case Nil
  then show ?case by simp
next
  case (Cons d p)
  then show ?case by (cases s) auto
qed

lemma startsWith_decomp: "startsWith s p \<Longrightarrow> s = p @ drop (length p) s"
  by (metis append_take_drop_id startsWith_def)

lemma startsWith_length: "startsWith s p \<Longrightarrow> length p \<le> length s"
  by (metis startsWith_def length_take min.cobounded1 min.commute)

lemma lazy_ok_Cons:
  "lazy_ok close (c # cs) y \<longleftrightarrow>
     (\<exists>y'. y = c # y' \<and> \<not> is_line_terminator c \<and>
        (if y' = [] then startsWith cs close else lazy_ok close cs y'))"
  by (cases y) (auto simp: lazy_ok_def)

lemma lazy_until_Some:
  "lazy_until close acc s = Some r \<Longrightarrow>
     \<exists>x. r = acc @ x \<and> lazy_ok close s x \<and> (\<forall>y. lazy_ok close s y \<longrightarrow> length x \<le> length y)"
proof (induction s arbitrary: acc)
  case Nil
  then show ?case by simp
next
  case (Cons c cs)
  from Cons.prems have nlt: "\<not> is_line_terminator c" by (auto split: if_splits)
  show ?case
  proof (cases "startsWith cs close")
    case True
    with Cons.prems nlt have "r = acc @ [c]" by simp
    moreover have "lazy_ok close (c # cs) [c]" using True nlt by (simp add: lazy_ok_Cons)
    moreover have "\<forall>y. lazy_ok close (c # cs) y \<longrightarrow> length [c] \<le> length y"
      by (auto simp: lazy_ok_Cons)
    ultimately show ?thesis by blast
  next
    case False
    with Cons.prems nlt have "lazy_until close (acc @ [c]) cs = Some r" by simp
    from Cons.IH[OF this] obtain x where x: "r = (acc @ [c]) @ x" "lazy_ok close cs x"
      "\<forall>y. lazy_ok close cs y \<longrightarrow> length x \<le> length y" by blast
    have "r = acc @ (c # x)" using x(1) by simp
    moreover have "lazy_ok close (c # cs) (c # x)"
      using x(2) nlt by (auto simp: lazy_ok_Cons lazy_ok_def)
    moreover have "\<forall>y. lazy_ok close (c # cs) y \<longrightarrow> length (c # x) \<le> length y"
      using x(3) False by (auto simp: lazy_ok_Cons split: if_splits)
    ultimately show ?thesis by blast
  qed
qed

lemma lazy_until_None:
  "lazy_until close acc s = None \<Longrightarrow> \<not> lazy_ok close s y"
proof (induction s arbitrary: acc y)
  case Nil
  then show ?case by (simp add: lazy_ok_def)
next
  case (Cons c cs)
  show ?case
  proof (cases "is_line_terminator c")
    case True
    then show ?thesis by (simp add: lazy_ok_Cons)
  next
    case False
    with Cons.prems have ns: "\<not> startsWith cs close" and rec: "lazy_until close (acc @ [c]) cs = None"
      by (auto split: if_splits)
    from Cons.IH[OF rec] ns show ?thesis by (auto simp: lazy_ok_Cons split: if_splits)
  qed
qed

lemma bold_here_lazy: "bold_here s x \<longleftrightarrow> startsWith s ''**'' \<and> lazy_ok ''**'' (drop 2 s) x"
proof -
  have "length ''**'' = 2" by simp
  with startsWith_append[of s "''**''" "x @ ''**''"]
  have "startsWith s (''**'' @ x @ ''**'')
      = (startsWith s ''**'' \<and> startsWith (drop 2 s) (x @ ''**''))"
    by (simp only:)
  then show ?thesis unfolding bold_here_def lazy_ok_def by blast
qed

lemma code_here_lazy: "code_here s x \<longleftrightarrow> startsWith s ''`'' \<and> lazy_ok ''`'' (drop 1 s) x"
proof -
  have "length ''`'' = 1" by simp
  with startsWith_append[of s "''`''" "x @ ''`''"]
  have "startsWith s (''`'' @ x @ ''`'')
      = (startsWith s ''`'' \<and> startsWith (drop 1 s) (x @ ''`''))"
    by (simp only:)
  then show ?thesis unfolding code_here_def lazy_ok_def by blast
qed

lemma bold_not_code: "bold_here s x \<Longrightarrow> \<not> code_here s y"
  by (cases s) (auto simp: bold_here_def code_here_def)

lemma match_at_Some:
  assumes "match_at i s = Some m"
  shows "\<exists>sp. span_here s sp \<and> index m = i \<and> lastIndex m = i + length (span_source sp) \<and>
     (group2 m, group4 m) = groups_of sp"
proof (cases "if startsWith s ''**'' then lazy_until ''**'' [] (drop 2 s) else None")
  case (Some x)
  then have sw: "startsWith s ''**''" and lz: "lazy_until ''**'' [] (drop 2 s) = Some x"
    by (auto split: if_splits)
  from lazy_until_Some[OF lz] have "span_here s (Strong x)"
    using sw by (auto simp: bold_here_lazy)
  moreover from assms Some have
    "m = \<lparr>index = i, group2 = Some x, group4 = None, lastIndex = i + (length x + 4)\<rparr>"
    by (simp add: match_at_def)
  ultimately show ?thesis
    by (intro exI[of _ "Strong x"]) (simp add: groups_of_def)
next
  case None
  show ?thesis
  proof (cases "if startsWith s ''`'' then lazy_until ''`'' [] (drop 1 s) else None")
    case N2: None
    with None assms show ?thesis by (simp add: match_at_def)
  next
    case (Some x)
    then have sw: "startsWith s ''`''" and lz: "lazy_until ''`'' [] (drop 1 s) = Some x"
      by (auto split: if_splits)
    from lazy_until_Some[OF lz] have "span_here s (Code x)"
      using sw by (auto simp: code_here_lazy)
    moreover from assms None Some have
      "m = \<lparr>index = i, group2 = None, group4 = Some x, lastIndex = i + (length x + 2)\<rparr>"
      by (simp add: match_at_def)
    ultimately show ?thesis
      by (intro exI[of _ "Code x"]) (simp add: groups_of_def)
  qed
qed

lemma match_at_None:
  assumes "match_at i s = None"
  shows "\<not> marker_at s 0"
proof -
  from assms have b: "(if startsWith s ''**'' then lazy_until ''**'' [] (drop 2 s) else None) = None"
    and c: "(if startsWith s ''`'' then lazy_until ''`'' [] (drop 1 s) else None) = None"
    by (auto simp: match_at_def split: option.splits)
  have "\<not> bold_here s x" for x
    using b lazy_until_None[of "''**''" "[]" "drop 2 s" x]
    by (auto simp: bold_here_lazy split: if_splits)
  moreover have "\<not> code_here s x" for x
    using c lazy_until_None[of "''`''" "[]" "drop 1 s" x]
    by (auto simp: code_here_lazy split: if_splits)
  ultimately show ?thesis by (simp add: marker_at_def)
qed

lemma marker_at_Cons: "marker_at (c # cs) (Suc k) = marker_at cs k"
  by (simp add: marker_at_def)

lemma scan_Some:
  "scan i s = Some m \<Longrightarrow>
     \<exists>j sp. (\<forall>k<j. \<not> marker_at s k) \<and> span_here (drop j s) sp \<and> index m = i + j \<and>
       lastIndex m = i + j + length (span_source sp) \<and> (group2 m, group4 m) = groups_of sp"
proof (induction s arbitrary: i)
  case Nil
  then show ?case by simp
next
  case (Cons c cs)
  show ?case
  proof (cases "match_at i (c # cs)")
    case (Some m0)
    with Cons.prems have "m0 = m" by simp
    with match_at_Some[OF Some] obtain sp where "span_here (c # cs) sp" "index m = i"
      "lastIndex m = i + length (span_source sp)" "(group2 m, group4 m) = groups_of sp" by blast
    then show ?thesis by (intro exI[of _ 0] exI[of _ sp]) simp
  next
    case None
    with Cons.prems have "scan (Suc i) cs = Some m" by simp
    from Cons.IH[OF this] obtain j sp where j: "\<forall>k<j. \<not> marker_at cs k" "span_here (drop j cs) sp"
      "index m = Suc i + j" "lastIndex m = Suc i + j + length (span_source sp)"
      "(group2 m, group4 m) = groups_of sp" by blast
    have "\<forall>k<Suc j. \<not> marker_at (c # cs) k"
    proof (intro allI impI)
      fix k assume "k < Suc j"
      then show "\<not> marker_at (c # cs) k"
        using match_at_None[OF None] j(1) by (cases k) (auto simp: marker_at_Cons)
    qed
    with j show ?thesis by (intro exI[of _ "Suc j"] exI[of _ sp]) simp
  qed
qed

lemma scan_None: "scan i s = None \<Longrightarrow> \<not> marker_at s j"
proof (induction s arbitrary: i j)
  case Nil
  then show ?case by (simp add: marker_at_def bold_here_def code_here_def)
next
  case (Cons c cs)
  from Cons.prems have m: "match_at i (c # cs) = None" and s: "scan (Suc i) cs = None"
    by (auto split: option.splits)
  show ?case using match_at_None[OF m] Cons.IH[OF s] by (cases j) (auto simp: marker_at_Cons)
qed

lemma span_here_startsWith: "span_here s sp \<Longrightarrow> startsWith s (span_source sp)"
  by (cases sp) (auto simp: bold_here_def code_here_def)

lemma span_here_groups:
  assumes "span_here s sp" and "(g2, g4) = groups_of sp"
  shows "(if group_truthy g2 then parts1 @ [Strong (group_text g2)]
          else if group_truthy g4 then parts1 @ [Code (group_text g4)] else parts1)
         = parts1 @ [sp]"
  using assms
  by (cases sp) (auto simp: groups_of_def group_truthy_def group_text_def bold_here_def code_here_def)

lemma renderInline_loop_spec:
  "i \<le> length t \<Longrightarrow> renderInline_loop t i ps = (i', ps') \<Longrightarrow>
     \<exists>ss. ps' = ps @ ss \<and> i' \<le> length t \<and>
       inline_spec (drop i t) (ss @ (if i' < length t then [Plain (drop i' t)] else []))"
proof (induction t i ps arbitrary: i' ps' rule: renderInline_loop.induct)
  case (1 t i ps)
  show ?case
  proof (cases "regex_exec t i")
    case None
    with "1.prems"(2) have eq: "i' = i" "ps' = ps" by simp_all
    from None have nm: "\<forall>j. \<not> marker_at (drop i t) j"
      unfolding regex_exec_def using scan_None by blast
    have "inline_spec (drop i t) (if drop i t = [] then [] else [Plain (drop i t)])"
      using plain_only[OF nm] .
    moreover have "(drop i t = []) = (\<not> i < length t)" by auto
    ultimately show ?thesis using eq "1.prems"(1) by auto
  next
    case (Some m)
    define s where "s = drop i t"
    from Some have "scan i s = Some m" by (simp add: regex_exec_def s_def)
    from scan_Some[OF this] obtain j sp where
      nm: "\<forall>k<j. \<not> marker_at s k" and sh: "span_here (drop j s) sp"
      and ix: "index m = i + j" and li: "lastIndex m = i + j + length (span_source sp)"
      and gr: "(group2 m, group4 m) = groups_of sp" by blast
    let ?src = "span_source sp"
    let ?rest = "drop (length ?src) (drop j s)"
    let ?pre = "take j s"
    have sw: "startsWith (drop j s) ?src" using sh by (rule span_here_startsWith)
    have d1: "drop j s = ?src @ ?rest" using sw by (rule startsWith_decomp)
    have src_ne: "?src \<noteq> []" using sh by (cases sp) auto
    have jlt: "j < length s"
    proof (rule ccontr)
      assume "\<not> j < length s"
      then have "drop j s = []" by simp
      with d1 src_ne show False by simp
    qed
    have lenpre: "length ?pre = j" using jlt by simp
    have decomp: "s = ?pre @ ?src @ ?rest"
      using d1 append_take_drop_id[of j s] by simp
    have len: "length ?src \<le> length (drop j s)" using sw by (rule startsWith_length)
    have li_le: "lastIndex m \<le> length t"
      using len jlt "1.prems"(1) unfolding li s_def by simp
    have rest_eq: "drop (lastIndex m) t = ?rest"
      unfolding li s_def by (simp add: add.commute add.left_commute)
    have slice_eq: "slice t i (index m) = ?pre"
      unfolding slice_def ix s_def by simp
    have pre_ne: "(index m > i) = (?pre \<noteq> [])"
      using jlt unfolding ix by auto
    have push: "push_match t i m ps = ps @ (if ?pre = [] then [] else [Plain ?pre]) @ [sp]"
      unfolding push_match_def Let_def
      using span_here_groups[OF sh gr] slice_eq pre_ne by auto
    from "1.prems"(2) Some
    have "renderInline_loop t (lastIndex m) (push_match t i m ps) = (i', ps')" by simp
    from "1.IH"[OF Some li_le this] obtain ss' where
      ps': "ps' = push_match t i m ps @ ss'" and i': "i' \<le> length t"
      and sp': "inline_spec (drop (lastIndex m) t)
          (ss' @ (if i' < length t then [Plain (drop i' t)] else []))" by blast
    let ?tail = "if i' < length t then [Plain (drop i' t)] else []"
    have nm': "\<forall>k<length ?pre. \<not> marker_at (?pre @ ?src @ ?rest) k"
      using nm lenpre decomp by simp
    have sh': "span_here (?src @ ?rest) sp" using sh d1 by simp
    have "inline_spec (?pre @ ?src @ ?rest)
        ((if ?pre = [] then [] else [Plain ?pre]) @ sp # (ss' @ ?tail))"
      using marker[OF nm' sh'] sp' unfolding rest_eq by blast
    then have "inline_spec s (((if ?pre = [] then [] else [Plain ?pre]) @ [sp] @ ss') @ ?tail)"
      using decomp by simp
    moreover have "ps' = ps @ ((if ?pre = [] then [] else [Plain ?pre]) @ [sp] @ ss')"
      using ps' push by simp
    ultimately show ?thesis using i' unfolding s_def by blast
  qed
qed

lemma inline_spec_concat: "inline_spec t ss \<Longrightarrow> concat (map span_source ss) = t"
  by (induction rule: inline_spec.induct) auto

lemma inline_spec_Nil: "inline_spec t [] \<Longrightarrow> t = []"
  by (cases rule: inline_spec.cases) (auto split: if_splits)

lemma renderInline_spec: "inline_spec t (spans_of (renderInline t))"
proof -
  obtain i' ps' where l: "renderInline_loop t 0 [] = (i', ps')" by (cases "renderInline_loop t 0 []")
  from renderInline_loop_spec[OF _ l] obtain ss where ss: "ps' = ss" "i' \<le> length t"
    and sp: "inline_spec t (ss @ (if i' < length t then [Plain (drop i' t)] else []))"
    by auto
  let ?parts = "ss @ (if i' < length t then [Plain (drop i' t)] else [])"
  have r: "renderInline t = (if length ?parts > 0 then Parts ?parts else Text t)"
    using l ss by (simp add: renderInline_def slice_from_def Let_def)
  show ?thesis
  proof (cases "?parts = []")
    case True
    with sp have "t = []" using inline_spec_Nil by metis
    with True r sp show ?thesis by simp
  next
    case False
    with r sp show ?thesis by simp
  qed
qed

lemma renderInline_example:
  "renderInline ''**bold** and `code`'' = Parts [Strong ''bold'', Plain '' and '', Code ''code'']"
  by code_simp

lemma renderInline_no_marker:
  assumes "\<forall>j. \<not> marker_at t j"
  shows "spans_of (renderInline t) = (if t = [] then [] else [Plain t])"
proof -
  have "regex_exec t 0 = None"
  proof (rule ccontr)
    assume "regex_exec t 0 \<noteq> None"
    then obtain m where "scan 0 t = Some m" by (auto simp: regex_exec_def)
    from scan_Some[OF this] obtain j sp where "span_here (drop j t) sp" by blast
    then have "marker_at t j" by (cases sp) (auto simp: marker_at_def)
    with assms show False by blast
  qed
  then show ?thesis by (simp add: renderInline_def slice_from_def)
qed

lemma span_here_marker: "span_here (drop j t) sp \<Longrightarrow> marker_at t j"
  by (cases sp) (auto simp: marker_at_def)

lemma lazy_ok_take: "lazy_ok close s x \<Longrightarrow> take (length x) s = x"
  using startsWith_append[of s x close] by (simp add: lazy_ok_def startsWith_def)

lemma lazy_ok_same_length:
  assumes "lazy_ok close s x" and "lazy_ok close s y" and "length x = length y"
  shows "x = y"
  using lazy_ok_take[OF assms(1)] lazy_ok_take[OF assms(2)] assms(3) by metis

lemma span_here_unique:
  assumes "span_here u s" and "span_here u s'"
  shows "s = s'"
proof (cases s)
  case (Plain p)
  with assms(1) show ?thesis by simp
next
  case (Strong x)
  show ?thesis
  proof (cases s')
    case (Plain p)
    with assms(2) show ?thesis by simp
  next
    case S': (Strong y)
    from assms Strong S' have "length x = length y" by (auto intro: le_antisym)
    with assms Strong S' show ?thesis
      by (auto simp: bold_here_lazy intro: lazy_ok_same_length)
  next
    case (Code y)
    with assms Strong show ?thesis by (auto dest: bold_not_code)
  qed
next
  case (Code x)
  show ?thesis
  proof (cases s')
    case (Plain p)
    with assms(2) show ?thesis by simp
  next
    case (Strong y)
    with assms Code show ?thesis by (auto dest: bold_not_code)
  next
    case C': (Code y)
    from assms Code C' have "length x = length y" by (auto intro: le_antisym)
    with assms Code C' show ?thesis
      by (auto simp: code_here_lazy intro: lazy_ok_same_length)
  qed
qed

lemma inline_spec_unique:
  "inline_spec t ss \<Longrightarrow> inline_spec t ss' \<Longrightarrow> ss = ss'"
proof (induction arbitrary: ss' rule: inline_spec.induct)
  case (plain_only t)
  from plain_only.prems show ?case
  proof (cases rule: inline_spec.cases)
    case plain_only
    then show ?thesis by simp
  next
    case (marker pre s rest ss0)
    from marker(4) have "span_here (drop (length pre) t) s" unfolding marker(1) by simp
    then have "marker_at t (length pre)" by (rule span_here_marker)
    with plain_only.hyps show ?thesis by blast
  qed
next
  case (marker pre s rest ss)
  let ?t = "pre @ span_source s @ rest"
  have here: "marker_at ?t (length pre)"
    using marker.hyps(2) span_here_marker[of "length pre" ?t s] by simp
  from marker.prems show ?case
  proof (cases rule: inline_spec.cases)
    case plain_only
    with here show ?thesis by blast
  next
    case m2: (marker pre' s' rest' ss0)
    have here': "marker_at ?t (length pre')"
      using m2(4) span_here_marker[of "length pre'" "pre' @ span_source s' @ rest'" s'] m2(1)
      by simp
    have "\<not> length pre < length pre'" using m2(3) here unfolding m2(1)[symmetric] by blast
    moreover have "\<not> length pre' < length pre" using marker.hyps(1) here' by blast
    ultimately have len: "length pre = length pre'" by simp
    with m2(1) have pre: "pre = pre'" and rest0: "span_source s @ rest = span_source s' @ rest'"
      by (auto simp: append_eq_append_conv)
    from marker.hyps(2) m2(4) rest0 have s: "s = s'" by (auto intro: span_here_unique)
    with rest0 have "rest = rest'" by simp
    with m2(5) marker.IH have "ss = ss0" by blast
    with pre s m2(2) show ?thesis by simp
  qed
qed

subsection \<open>Inline spans\<close>

text \<open>
  C7. The spans \<open>renderInline\<close> produces are those of a left-to-right scan: the first
  span stands at the earliest position where a marker pattern starts, it is the
  shortest one there, the text before it is one plain span, and the rest of the text
  is scanned in the same way (\<open>inline_spec\<close>); no other list of spans is such a scan
  of the text. Putting the spans back together, with their markers, gives the text. A text in which no position starts a complete
  pattern, so that every marker is unterminated, is one plain span. The text
  \<^verbatim>\<open>**bold** and `code`\<close> gives the spans bold \<open>bold\<close>, plain \<open> and \<close>, code \<open>code\<close>.
\<close>

theorem renderInline_spans:
  "inline_spec t (spans_of (renderInline t)) \<and>
   (\<forall>ss. inline_spec t ss \<longrightarrow> ss = spans_of (renderInline t)) \<and>
   concat (map span_source (spans_of (renderInline t))) = t \<and>
   ((\<forall>j. \<not> marker_at t j) \<longrightarrow> spans_of (renderInline t) = (if t = [] then [] else [Plain t])) \<and>
   renderInline ''**bold** and `code`'' = Parts [Strong ''bold'', Plain '' and '', Code ''code'']"
  using renderInline_spec[of t] inline_spec_concat[OF renderInline_spec[of t]]
    renderInline_no_marker[of t] renderInline_example
    inline_spec_unique[OF _ renderInline_spec[of t]]
  by blast

text \<open>An opening \<open>**\<close> and a backtick, neither of them closed, stay plain text.\<close>

lemma scan_unterminated: "scan 0 ''**a `b'' = None"
  by code_simp

theorem renderInline_spans_witness:
  "scan 0 ''**a `b'' = None \<and>
   spans_of (renderInline ''**a `b'') = [Plain ''**a `b''] \<and>
   inline_spec ''**bold** and `code`'' [Strong ''bold'', Plain '' and '', Code ''code'']"
proof -
  have nm: "\<forall>j. \<not> marker_at ''**a `b'' j"
    using scan_None[OF scan_unterminated] by blast
  from renderInline_spans[of "''**a `b''"] nm
  have a: "spans_of (renderInline ''**a `b'') = [Plain ''**a `b'']" by simp
  from renderInline_spans[of "''**bold** and `code`''"]
  have "inline_spec ''**bold** and `code`'' (spans_of (renderInline ''**bold** and `code`''))"
    and "renderInline ''**bold** and `code`''
      = Parts [Strong ''bold'', Plain '' and '', Code ''code'']"
    by blast+
  then have b: "inline_spec ''**bold** and `code`''
      [Strong ''bold'', Plain '' and '', Code ''code'']"
    by simp
  from scan_unterminated a b show ?thesis by blast
qed

section \<open>Properties of the chat turn\<close>

subsection \<open>The normalizer inside a turn\<close>

lemma try_block_text_string:
  assumes "\<exists>s. text' l = JStr s"
  shows "case try_block h result l of
           Normal l' \<Rightarrow> \<exists>s. text' l' = JStr s
         | Return r \<Rightarrow> \<exists>s. text' r = JStr s
         | Throw e l' \<Rightarrow> \<exists>s. text' l' = JStr s"
proof -
  have p: "primary_path h result l = Normal l \<or> primary_path h result l = Throw TypeError l \<or>
      (\<exists>e. primary_path h result l = Throw e l) \<or>
      (\<exists>r s. primary_path h result l = Return r \<and> text' r = JStr s)"
    using primary_path_skip[of h result l] primary_path_throw[of h result _ l]
      primary_path_return[of h result _ l]
    by (cases "truthy h (member_opt (member_opt result ''data'') ''response'')";
        cases "js_String h (member_opt (member_opt result ''data'') ''response'')") auto
  have f: "flat_path h result l = Normal l \<or>
      (\<exists>r s. flat_path h result l = Return r \<and> text' r = JStr s)"
    using flat_path_skip[of result h l] flat_path_return[of result _ h l]
    by (cases "\<exists>s. member_opt result ''response'' = JStr s \<and> s \<noteq> []") auto
  have s: "string_path h result l = Normal l \<or>
      (\<exists>r s. string_path h result l = Return r \<and> text' r = JStr s)"
  proof (cases "typeof result = ''string''")
    case False
    then show ?thesis by (simp add: string_path_skip)
  next
    case True
    then obtain s where r: "result = JStr s" by (auto simp: typeof_string)
    show ?thesis
      unfolding r string_path_string parse_attempt_string parsed_paths_cases
      by (auto split: option.splits sum.splits)
  qed
  have b: "(\<exists>l' s. fallback h result l = Normal l' \<and> text' l' = JStr s) \<or>
      (\<exists>e. fallback h result l = Throw e l)"
    unfolding fallback_cases by (auto split: sum.splits)
  show ?thesis
    using p f s b assms unfolding try_block_def seq_def
    by (auto split: completion.splits)
qed

lemma parseAgentResponse_text_string:
  assumes "parseAgentResponse h result = Inr p"
  shows "\<exists>s. text' p = JStr s"
proof -
  have "\<exists>s. text' (initial_locals :: 'a parsed) = JStr s" by (simp add: initial_locals_def)
  from try_block_text_string[OF this, of h result] assms show ?thesis
    unfolding parseAgentResponse_of_try_block by (auto split: completion.splits)
qed

lemma parseAgentResponse_returns: "\<exists>p. parseAgentResponse h result = Inr p"
  unfolding parseAgentResponse_of_try_block by (auto split: completion.splits)

lemma sendMessage_resume_messages:
  "messages (sendMessage_resume h settled a b st) = messages (sendMessage_try h settled a b st)"
  by (simp add: sendMessage_resume_def)

lemma network_error_messages:
  "messages (network_error ts st) = messages st @
     [\<lparr>msg_id = ''msg-'' @ string_of_nat (idCounter st + 1), role = Assistant,
       content = JStr ''A network error occurred. Please check your connection and try again.'',
       timestamp = ts, followUpSuggestions = None, isError = Some True\<rparr>]"
  by (simp add: network_error_def getNextId_def setMessages_append_def)

lemma string_of_nat_1: "string_of_nat (Suc 0) = ''1''"
  by code_simp

lemma string_of_nat_2: "string_of_nat (Suc (Suc 0)) = ''2''"
  by code_simp

lemma trim_Hello: "trim ''Hello'' = ''Hello''"
  by (simp add: trim_def is_white_space_def)

subsection \<open>Submissions while a call is in flight\<close>

lemma sendMessage_begin_rendered_loading:
  "rendered_isLoading st \<Longrightarrow> sendMessage_begin ts input st = st"
  by (simp add: sendMessage_begin_def)

lemma sendMessage_begin_after_render:
  assumes "trim input \<noteq> []" and "\<not> rendered_isLoading st"
  shows "sendMessage_begin ts' input' (render (sendMessage_begin ts input st))
    = render (sendMessage_begin ts input st)"
proof -
  have "isLoading (sendMessage_begin ts input st)"
    using assms
    by (simp add: sendMessage_begin_def getNextId_def setMessages_append_def Let_def)
  then have "rendered_isLoading (render (sendMessage_begin ts input st))"
    by (simp add: render_def)
  then show ?thesis by (rule sendMessage_begin_rendered_loading)
qed


subsection \<open>One assistant entry per turn\<close>

text \<open>
  C9 (amended). A submission that is not empty after trimming, made while the page is
  not loading (the render that built the handler saw the loading flag unset),
  appends the user entry, sets the loading flag and calls the agent once. However the call settles, the rest of \<open>sendMessage\<close> appends exactly one
  entry, of role assistant: when the call rejects, an error entry with the fixed
  network-error text; when it resolves with a truthy \<open>success\<close>, an entry without the
  error flag whose content is the normalized text, or the fixed placeholder when
  that text is empty, together with the normalized suggestions; when it resolves
  otherwise, an error entry whose content is the \<open>error\<close> field, else
  \<open>response.message\<close>, else the fixed generic text.
\<close>

theorem turn_appends_one_assistant_entry:
  "(trim input \<noteq> [] \<and> \<not> rendered_isLoading st0 \<longrightarrow>
      (\<exists>u. messages (sendMessage_begin ts input st0) = messages st0 @ [u] \<and>
           role u = User \<and> content u = JStr (trim input)) \<and>
      isLoading (sendMessage_begin ts input st0) \<and>
      agent_calls (sendMessage_begin ts input st0) = agent_calls st0 @ [(trim input, AGENT_ID)]) \<and>
   (\<exists>m. messages (sendMessage_resume h settled responseTs catchTs st) = messages st @ [m] \<and>
        role m = Assistant \<and>
        (case settled of
           Rejected \<Rightarrow>
             isError m = Some True \<and>
             content m = JStr ''A network error occurred. Please check your connection and try again.''
         | Resolved result \<Rightarrow>
             if truthy h (member_opt result ''success'') then
               isError m = None \<and>
               (\<exists>p s. parseAgentResponse h (agent_payload result) = Inr p \<and> text' p = JStr s \<and>
                  content m = (if s = [] then
                     JStr ''I received your message but have no response to display.''
                     else JStr s) \<and>
                  followUpSuggestions m = Some (suggestions p))
             else
               isError m = Some True \<and>
               content m = js_or h (member_opt result ''error'')
                 (js_or h (member_opt (member_opt result ''response'') ''message'')
                    (JStr ''Something went wrong. Please try again.''))))"
proof -
  have a: "(\<exists>u. messages (sendMessage_begin ts input st0) = messages st0 @ [u] \<and>
           role u = User \<and> content u = JStr (trim input)) \<and>
      isLoading (sendMessage_begin ts input st0) \<and>
      agent_calls (sendMessage_begin ts input st0) = agent_calls st0 @ [(trim input, AGENT_ID)]"
    if "trim input \<noteq> []" "\<not> rendered_isLoading st0"
    using that
    by (simp add: sendMessage_begin_def getNextId_def setMessages_append_def Let_def)
  have b: "\<exists>m. messages (sendMessage_resume h settled responseTs catchTs st) = messages st @ [m] \<and>
        role m = Assistant \<and>
        (case settled of
           Rejected \<Rightarrow>
             isError m = Some True \<and>
             content m = JStr ''A network error occurred. Please check your connection and try again.''
         | Resolved result \<Rightarrow>
             if truthy h (member_opt result ''success'') then
               isError m = None \<and>
               (\<exists>p s. parseAgentResponse h (agent_payload result) = Inr p \<and> text' p = JStr s \<and>
                  content m = (if s = [] then
                     JStr ''I received your message but have no response to display.''
                     else JStr s) \<and>
                  followUpSuggestions m = Some (suggestions p))
             else
               isError m = Some True \<and>
               content m = js_or h (member_opt result ''error'')
                 (js_or h (member_opt (member_opt result ''response'') ''message'')
                    (JStr ''Something went wrong. Please try again.'')))"
  proof (cases settled)
    case Rejected
    then show ?thesis
      by (simp add: sendMessage_resume_messages sendMessage_try_def network_error_messages)
  next
    case (Resolved result)
    show ?thesis
    proof (cases "truthy h (member_opt result ''success'')")
      case False
      with Resolved show ?thesis
        by (simp add: sendMessage_resume_messages sendMessage_try_def getNextId_def
            setMessages_append_def)
    next
      case True
      obtain p where p: "parseAgentResponse h (agent_payload result) = Inr p"
        using parseAgentResponse_returns by blast
      from parseAgentResponse_text_string[OF p] obtain s where s: "text' p = JStr s" by blast
      from Resolved True p s show ?thesis
        by (simp add: sendMessage_resume_messages sendMessage_try_def getNextId_def
            setMessages_append_def js_or_def agent_payload_def[symmetric])
    qed
  qed
  from a b show ?thesis by blast
qed

text \<open>
  The turn of the submission \<open>Hello\<close> answered with \<open>{data:{response:"Hi there!"}}\<close>:
  the transcript is the user entry followed by one assistant entry without error flag.
\<close>

theorem turn_appends_one_assistant_entry_witness:
  "trim ''Hello'' \<noteq> [] \<and> \<not> rendered_isLoading (initial_page :: int page) \<and>
   isLoading (sendMessage_begin ''2:30 PM'' ''Hello'' (initial_page :: int page)) \<and>
   messages (sendMessage_resume demo_host (Resolved hi_there) ''2:31 PM'' ''2:32 PM''
       (sendMessage_begin ''2:30 PM'' ''Hello'' initial_page))
     = [\<lparr>msg_id = ''msg-1'', role = User, content = JStr ''Hello'', timestamp = ''2:30 PM'',
         followUpSuggestions = None, isError = None\<rparr>,
        \<lparr>msg_id = ''msg-2'', role = Assistant, content = JStr ''Hi there!'',
         timestamp = ''2:31 PM'', followUpSuggestions = Some (JArr []), isError = None\<rparr>]"
proof -
  let ?init = "initial_page :: int page"
  let ?st = "sendMessage_begin ''2:30 PM'' ''Hello'' ?init"
  have h: "trim ''Hello'' \<noteq> []" "\<not> rendered_isLoading ?init"
    by (simp_all add: trim_Hello initial_page_def)
  from turn_appends_one_assistant_entry[of "''Hello''" ?init "''2:30 PM''" demo_host
      "Resolved hi_there" "''2:31 PM''" "''2:32 PM''" ?st] h
  have l: "isLoading ?st" by blast
  have m: "messages (sendMessage_resume demo_host (Resolved hi_there) ''2:31 PM'' ''2:32 PM'' ?st)
     = [\<lparr>msg_id = ''msg-1'', role = User, content = JStr ''Hello'', timestamp = ''2:30 PM'',
         followUpSuggestions = None, isError = None\<rparr>,
        \<lparr>msg_id = ''msg-2'', role = Assistant, content = JStr ''Hi there!'',
         timestamp = ''2:31 PM'', followUpSuggestions = Some (JArr []), isError = None\<rparr>]"
    by (simp add: sendMessage_resume_def sendMessage_try_def sendMessage_begin_def trim_Hello
        initial_page_def getNextId_def setMessages_append_def Let_def hi_there_def js_or_def
        string_of_nat_1 string_of_nat_2 eval_defs)
  from h l m show ?thesis by blast
qed

text \<open>
  As stated, with the entry of a successful turn carrying the normalized text, C9
  fails when that text is empty: for the payload \<open>""\<close> the normalized text is the
  empty string and the content of the entry is the placeholder.
\<close>

theorem empty_text_counterexample:
  "truthy demo_host (member_opt empty_string_reply ''success'') \<and>
   parseAgentResponse demo_host (agent_payload empty_string_reply)
     = Inr \<lparr>text' = JStr [], suggestions = JArr []\<rparr> \<and>
   map content (messages (sendMessage_resume demo_host (Resolved empty_string_reply)
       ''2:31 PM'' ''2:32 PM'' initial_page))
     = [JStr ''I received your message but have no response to display.'']"
  by (simp add: empty_string_reply_def agent_payload_def sendMessage_resume_def
      sendMessage_try_def initial_page_def getNextId_def setMessages_append_def js_or_def
      eval_defs)

subsection \<open>No empty assistant entry\<close>

text \<open>
  C10. When the call resolves with a truthy \<open>success\<close>, the one entry appended is an
  assistant entry without error flag whose content is never the empty string; when
  the normalized text is the empty string, the content is the fixed placeholder
  \<open>I received your message but have no response to display.\<close>
\<close>

theorem empty_text_placeholder:
  assumes "truthy h (member_opt result ''success'')"
  shows "\<exists>m. messages (sendMessage_resume h (Resolved result) responseTs catchTs st)
        = messages st @ [m] \<and>
      role m = Assistant \<and> isError m = None \<and> content m \<noteq> JStr [] \<and>
      ((\<exists>p. parseAgentResponse h (agent_payload result) = Inr p \<and> text' p = JStr []) \<longrightarrow>
         content m = JStr ''I received your message but have no response to display.'')"
proof -
  obtain p where p: "parseAgentResponse h (agent_payload result) = Inr p"
    using parseAgentResponse_returns by blast
  from parseAgentResponse_text_string[OF p] obtain s where s: "text' p = JStr s" by blast
  from assms p s show ?thesis
    by (simp add: sendMessage_resume_messages sendMessage_try_def getNextId_def
        setMessages_append_def js_or_def agent_payload_def[symmetric])
qed

text \<open>
  An empty array as \<open>data.response\<close> is truthy and converts to the empty string: the
  entry shows the placeholder.
\<close>

theorem empty_text_placeholder_witness:
  "truthy demo_host (member_opt empty_reply ''success'') \<and>
   parseAgentResponse demo_host (agent_payload empty_reply)
     = Inr \<lparr>text' = JStr [], suggestions = JArr []\<rparr> \<and>
   map content (messages (sendMessage_resume demo_host (Resolved empty_reply) ''2:31 PM'' ''2:32 PM''
       (sendMessage_begin ''2:30 PM'' ''Hello'' initial_page)))
     = [JStr ''Hello'', JStr ''I received your message but have no response to display.'']"
proof -
  let ?st = "sendMessage_begin ''2:30 PM'' ''Hello'' (initial_page :: int page)"
  have t: "truthy demo_host (member_opt empty_reply ''success'')"
    by (simp add: empty_reply_def member_opt_def)
  have e: "parseAgentResponse demo_host (agent_payload empty_reply)
     = Inr \<lparr>text' = JStr [], suggestions = JArr []\<rparr>"
    by (simp add: agent_payload_def empty_reply_def eval_defs)
  have b: "messages ?st = [\<lparr>msg_id = ''msg-1'', role = User, content = JStr ''Hello'',
      timestamp = ''2:30 PM'', followUpSuggestions = None, isError = None\<rparr>]"
    by (simp add: sendMessage_begin_def trim_Hello initial_page_def getNextId_def
        setMessages_append_def Let_def string_of_nat_1)
  from empty_text_placeholder[OF t, of "''2:31 PM''" "''2:32 PM''" ?st] e
  obtain m where "messages (sendMessage_resume demo_host (Resolved empty_reply) ''2:31 PM''
      ''2:32 PM'' ?st) = messages ?st @ [m]"
    and "content m = JStr ''I received your message but have no response to display.''"
    by auto
  with t e b show ?thesis by simp
qed

end
